theory Spec2Isabelle
  imports Complex_Main
begin

section \<open>pma: a shallow embedding of \<^verbatim>\<open>pma.c\<close>\<close>

text \<open>
  Conventions of the embedding.
  \<^item> A C string is a \<open>string\<close> (the characters before the terminating NUL).
  \<^item> A table that the C code keeps as a pointer plus an element count
    (\<open>classtbl\<close>/\<open>numclasses\<close>, \<open>metrictbl\<close>/\<open>nummetrics\<close>,
    \<open>devicetbl\<close>/\<open>numdevices\<close>) is a list; the count is its length.
  \<^item> A \<open>double\<close> is a value of the type \<open>double\<close> below, with rounding to the
    nearest value, the infinities and NaN.
  \<^item> An \<open>int\<close> is an unbounded \<open>int\<close>; row indices, which only count up from
    zero, are \<open>nat\<close>.
  \<^item> \<open>exit(1)\<close>, a null-pointer dereference, an integer division by zero and an
    access outside an allocated buffer are results of type \<open>error\<close>.
  \<^item> Diagnostics written to \<open>stderr\<close> and the diagnostic line counter
    \<open>inputlinectr\<close> are left out.
  \<^item> The input stream is the list of strings that successive \<open>fgets\<close> calls return
    (each with its newline, if it has one).
\<close>

datatype error = Exit int | Null_deref | Div_by_zero | Out_of_bounds

subsection \<open>Values of type \<^verbatim>\<open>double\<close>\<close>

text \<open>
  A \<open>double\<close> is a binary64 value of IEEE 754: a finite number, an infinity or
  NaN. The finite values are the reals \<open>m * 2 ^ e\<close> with \<open>|m| \<le> 2 ^ 53\<close> and
  \<open>e \<ge> - 1074\<close> below \<open>2 ^ 1024\<close>. \<open>round_double\<close> takes a real to the nearest of
  them, a tie to the one with the even significand, and to an infinity from
  \<open>2 ^ 1024\<close> on: \<open>exponent x\<close> is the binary exponent of \<open>x\<close>, not below \<open>- 1022\<close>
  (gradual underflow), and \<open>exponent x - 52\<close> is the exponent of the last place.
\<close>

datatype double = Finite real | PInf | MInf | NaN

fun halvings :: "nat \<Rightarrow> real \<Rightarrow> nat" where
  "halvings 0 x = 0"
| "halvings (Suc n) x = (if x < 2 then 0 else Suc (halvings n (x / 2)))"

fun doublings :: "nat \<Rightarrow> real \<Rightarrow> nat" where
  "doublings 0 x = 0"
| "doublings (Suc n) x = (if 1 \<le> x then 0 else Suc (doublings n (2 * x)))"

definition exponent :: "real \<Rightarrow> int" where
  "exponent x =
     (if 1 \<le> \<bar>x\<bar> then int (halvings 1024 \<bar>x\<bar>) else - int (doublings 1022 \<bar>x\<bar>))"

definition pow2 :: "int \<Rightarrow> real" where
  "pow2 e = (if 0 \<le> e then 2 ^ nat e else 1 / 2 ^ nat (- e))"

definition round_half_even :: "real \<Rightarrow> int" where
  "round_half_even y =
     (if y - of_int \<lfloor>y\<rfloor> < 1 / 2 then \<lfloor>y\<rfloor>
      else if 1 / 2 < y - of_int \<lfloor>y\<rfloor> then \<lfloor>y\<rfloor> + 1
      else if even \<lfloor>y\<rfloor> then \<lfloor>y\<rfloor>
      else \<lfloor>y\<rfloor> + 1)"

definition round_double :: "real \<Rightarrow> double" where
  "round_double x =
     (if x = 0 then Finite 0
      else if 1024 \<le> exponent x \<or>
         (exponent x = 1023 \<and>
          \<bar>round_half_even (x / pow2 (exponent x - 52))\<bar> = 2 ^ 53) then
        (if 0 < x then PInf else MInf)
      else
        Finite (of_int (round_half_even (x / pow2 (exponent x - 52))) *
                pow2 (exponent x - 52)))"

text \<open>
  The operations of the program on a \<open>double\<close>: its \<open>0\<close>, \<open>+\<close>, \<open>*\<close>, \<open>/\<close> and the
  comparisons \<open><\<close> and \<open>\<le>\<close>, which are false when an operand is NaN. The sign of
  a zero is not modelled, so a division by zero takes the sign of the dividend.
  The test \<open>x != 0\<close> of the program is \<open>x \<noteq> 0\<close> here: it holds of NaN and of the
  infinities.
\<close>

instantiation double :: "{zero, plus, times, inverse, ord}"
begin

definition zero_double :: double where
  "zero_double = Finite 0"

definition plus_double :: "double \<Rightarrow> double \<Rightarrow> double" where
  "plus_double a b =
     (case a of
        Finite x \<Rightarrow>
          (case b of Finite y \<Rightarrow> round_double (x + y) | PInf \<Rightarrow> PInf | MInf \<Rightarrow> MInf
           | NaN \<Rightarrow> NaN)
      | PInf \<Rightarrow> (case b of Finite y \<Rightarrow> PInf | PInf \<Rightarrow> PInf | MInf \<Rightarrow> NaN | NaN \<Rightarrow> NaN)
      | MInf \<Rightarrow> (case b of Finite y \<Rightarrow> MInf | PInf \<Rightarrow> NaN | MInf \<Rightarrow> MInf | NaN \<Rightarrow> NaN)
      | NaN \<Rightarrow> NaN)"

definition times_double :: "double \<Rightarrow> double \<Rightarrow> double" where
  "times_double a b =
     (case a of
        Finite x \<Rightarrow>
          (case b of
             Finite y \<Rightarrow> round_double (x * y)
           | PInf \<Rightarrow> (if x = 0 then NaN else if 0 < x then PInf else MInf)
           | MInf \<Rightarrow> (if x = 0 then NaN else if 0 < x then MInf else PInf)
           | NaN \<Rightarrow> NaN)
      | PInf \<Rightarrow>
          (case b of
             Finite y \<Rightarrow> (if y = 0 then NaN else if 0 < y then PInf else MInf)
           | PInf \<Rightarrow> PInf | MInf \<Rightarrow> MInf | NaN \<Rightarrow> NaN)
      | MInf \<Rightarrow>
          (case b of
             Finite y \<Rightarrow> (if y = 0 then NaN else if 0 < y then MInf else PInf)
           | PInf \<Rightarrow> MInf | MInf \<Rightarrow> PInf | NaN \<Rightarrow> NaN)
      | NaN \<Rightarrow> NaN)"

definition divide_double :: "double \<Rightarrow> double \<Rightarrow> double" where
  "divide_double a b =
     (case a of
        Finite x \<Rightarrow>
          (case b of
             Finite y \<Rightarrow>
               (if y = 0 then (if x = 0 then NaN else if 0 < x then PInf else MInf)
                else round_double (x / y))
           | PInf \<Rightarrow> Finite 0 | MInf \<Rightarrow> Finite 0 | NaN \<Rightarrow> NaN)
      | PInf \<Rightarrow>
          (case b of Finite y \<Rightarrow> (if 0 \<le> y then PInf else MInf)
           | PInf \<Rightarrow> NaN | MInf \<Rightarrow> NaN | NaN \<Rightarrow> NaN)
      | MInf \<Rightarrow>
          (case b of Finite y \<Rightarrow> (if 0 \<le> y then MInf else PInf)
           | PInf \<Rightarrow> NaN | MInf \<Rightarrow> NaN | NaN \<Rightarrow> NaN)
      | NaN \<Rightarrow> NaN)"

definition inverse_double :: "double \<Rightarrow> double" where
  "inverse_double a =
     (case a of
        Finite y \<Rightarrow> (if y = 0 then PInf else round_double (1 / y))
      | PInf \<Rightarrow> Finite 0 | MInf \<Rightarrow> Finite 0 | NaN \<Rightarrow> NaN)"

definition less_double :: "double \<Rightarrow> double \<Rightarrow> bool" where
  "less_double a b =
     (case a of
        Finite x \<Rightarrow> (case b of Finite y \<Rightarrow> x < y | PInf \<Rightarrow> True | MInf \<Rightarrow> False | NaN \<Rightarrow> False)
      | PInf \<Rightarrow> False
      | MInf \<Rightarrow> (case b of Finite y \<Rightarrow> True | PInf \<Rightarrow> True | MInf \<Rightarrow> False | NaN \<Rightarrow> False)
      | NaN \<Rightarrow> False)"

definition less_eq_double :: "double \<Rightarrow> double \<Rightarrow> bool" where
  "less_eq_double a b \<longleftrightarrow> a \<noteq> NaN \<and> b \<noteq> NaN \<and> (a = b \<or> a < b)"

instance ..

end

subsection \<open>Constants and macros\<close>

definition QUOTECHAR :: char where "QUOTECHAR = CHR 0x27"
definition COMMENTCHAR :: char where "COMMENTCHAR = CHR ''#''"
definition STANZATERMCHAR :: char where "STANZATERMCHAR = CHR '':''"
definition NODEVICENAME :: string where "NODEVICENAME = ''None''"

definition TIMEVALUES :: string where "TIMEVALUES = ''TIME_VALUES:''"
definition COUNTIDX :: nat where "COUNTIDX = 0"
definition INTERVALIDX :: nat where "INTERVALIDX = 1"
definition NUMTIMEVALUES :: nat where "NUMTIMEVALUES = 2"

definition METADATASTR :: string where "METADATASTR = ''METADATA:''"
definition CLASSSTRIDX :: nat where "CLASSSTRIDX = 0"
definition CLASSTYPEIDX :: nat where "CLASSTYPEIDX = 1"
definition STARTROWIDX :: nat where "STARTROWIDX = 2"
definition NUMMETAITEMS :: nat where "NUMMETAITEMS = 3"
definition MAXNUMMETRICS :: nat where "MAXNUMMETRICS = 32"
definition MAXNUMMETADATA :: nat where "MAXNUMMETADATA = NUMMETAITEMS + MAXNUMMETRICS"
definition ARRAYCLASS :: char where "ARRAYCLASS = CHR ''A''"
definition VECTORCLASS :: char where "VECTORCLASS = CHR ''V''"

definition MAXCLSNAMELEN :: nat where "MAXCLSNAMELEN = 32"
definition MAXMETNAMELEN :: nat where "MAXMETNAMELEN = 32"
definition MAXDEVNAMELEN :: nat where "MAXDEVNAMELEN = 32"

definition DATESTR :: string where "DATESTR = ''DATE:''"
definition TIMESTAMPIDX :: nat where "TIMESTAMPIDX = 0"
definition NUMDATEARGS :: nat where "NUMDATEARGS = 1"

definition WHITESPACE :: "char \<Rightarrow> bool" where
  "WHITESPACE c \<longleftrightarrow> c = CHR '' '' \<or> c = CHR 0x09 \<or> c = CHR 0x0A"

definition MAX_macro :: "double \<Rightarrow> double \<Rightarrow> double" where
  "MAX_macro a b = (if a > b then a else b)"

subsection \<open>The line tokenizer: \<^verbatim>\<open>parse_input_line\<close>\<close>

text \<open>
  \<open>parse_args\<close> is the main \<open>while (*inputline)\<close> loop; its first argument is the
  text from the cursor \<open>inputline\<close> to the terminating NUL and its last argument the
  entries of \<open>argtbl\<close> filled so far (so \<open>argidx\<close> is their number). Every
  iteration starts at the first character of a prospective argument: the comment
  character is tested there and nowhere else. After an opening quote the code sets
  \<open>argtbl[argidx++] = inputline++\<close> without looking at the character; when the quote
  was the last character of the line this steps over the terminating NUL, which is
  the result \<open>Inl Out_of_bounds\<close>.
\<close>

function parse_args :: "string \<Rightarrow> nat \<Rightarrow> string list \<Rightarrow> error + string list" where
  "parse_args [] maxargs argtbl = Inr argtbl"
| "parse_args (c # cs) maxargs argtbl =
    (if c = COMMENTCHAR then Inr argtbl
     else if length argtbl < maxargs then
       (case (if c = QUOTECHAR then cs else c # cs) of
          [] \<Rightarrow> Inl Out_of_bounds
        | t # ts \<Rightarrow>
           (case dropWhile (\<lambda>x. if c = QUOTECHAR then x \<noteq> QUOTECHAR else \<not> WHITESPACE x) ts of
              [] \<Rightarrow> Inr (argtbl @
                     [t # takeWhile (\<lambda>x. if c = QUOTECHAR then x \<noteq> QUOTECHAR else \<not> WHITESPACE x) ts])
            | d # rest \<Rightarrow>
                parse_args (dropWhile WHITESPACE rest) maxargs (argtbl @
                     [t # takeWhile (\<lambda>x. if c = QUOTECHAR then x \<noteq> QUOTECHAR else \<not> WHITESPACE x) ts])))
     else Inr argtbl)"
  by pat_completeness auto

lemma length_dropWhile_Cons:
  "dropWhile P ts = d # rest \<Longrightarrow> length (dropWhile Q rest) < length ts"
proof -
  assume a: "dropWhile P ts = d # rest"
  have "length (dropWhile Q rest) \<le> length rest"
    by (rule length_dropWhile_le)
  moreover have "length (d # rest) \<le> length ts"
    using length_dropWhile_le [of P ts] a by simp
  ultimately show ?thesis by simp
qed

termination parse_args
proof (relation "measure (\<lambda>(s, m, a). length s)")
  show "wf (measure (\<lambda>(s, m, a). length s))" by simp
next
  fix c :: char and cs maxargs argtbl t ts d rest
  assume p: "(if c = QUOTECHAR then cs else c # cs) = t # ts"
    and r: "dropWhile (\<lambda>x. if c = QUOTECHAR then x \<noteq> QUOTECHAR else \<not> WHITESPACE x) ts = d # rest"
  have "length (dropWhile WHITESPACE rest) < length ts"
    using r by (rule length_dropWhile_Cons)
  moreover have "length ts \<le> length cs"
    using p by (cases "c = QUOTECHAR") auto
  ultimately show "((dropWhile WHITESPACE rest, maxargs,
       argtbl @ [t # takeWhile (\<lambda>x. if c = QUOTECHAR then x \<noteq> QUOTECHAR else \<not> WHITESPACE x) ts]),
      c # cs, maxargs, argtbl) \<in> measure (\<lambda>(s, m, a). length s)"
    by simp
qed

definition parse_input_line :: "string \<Rightarrow> nat \<Rightarrow> error + string list" where
  "parse_input_line inputline maxargs = parse_args (dropWhile WHITESPACE inputline) maxargs []"

subsection \<open>The C library's \<^verbatim>\<open>atoi\<close> and \<^verbatim>\<open>atol\<close>\<close>

text \<open>
  Leading white space, an optional sign, then decimal digits up to the first other
  character; no digits give 0. Overflow is not modelled. \<open>atof\<close> is not defined
  here: the functions that call it take it as the parameter \<open>atof\<close>, so what is
  proved holds for every way of reading a \<open>double\<close> from a string.
\<close>

definition isspace :: "char \<Rightarrow> bool" where
  "isspace c \<longleftrightarrow> c = CHR '' '' \<or> (9::nat) \<le> of_char c \<and> of_char c \<le> (13::nat)"

definition isdigit :: "char \<Rightarrow> bool" where
  "isdigit c \<longleftrightarrow> (48::nat) \<le> of_char c \<and> of_char c \<le> (57::nat)"

fun digits_value :: "int \<Rightarrow> string \<Rightarrow> int" where
  "digits_value acc [] = acc"
| "digits_value acc (c # cs) =
     (if isdigit c then digits_value (acc * 10 + (of_char c - 48)) cs else acc)"

definition atoi :: "string \<Rightarrow> int" where
  "atoi s =
     (case dropWhile isspace s of
        [] \<Rightarrow> 0
      | c # cs \<Rightarrow>
          if c = CHR ''-'' then - digits_value 0 cs
          else if c = CHR ''+'' then digits_value 0 cs
          else digits_value 0 (c # cs))"

definition atol :: "string \<Rightarrow> int" where
  "atol s = atoi s"

subsection \<open>The data model\<close>

text \<open>
  What the program writes to an output file, before formatting:
  \<open>Text s\<close> is \<open>%s\<close> of a string, \<open>Chr c\<close> is \<open>%c\<close>, \<open>Fixed1 v\<close> is \<open>%.1f\<close> of a
  value, \<open>Stamp fmt t\<close> is \<open>strftime\<close> with format \<open>fmt\<close> of \<open>localtime(t)\<close>,
  \<open>Headerline fmt name s\<close> is the multi-file header (\<open>fprintf\<close> with the configured
  format of a series name and its scale) and \<open>Newline\<close> is the line end.
\<close>

datatype out_item =
    Text string
  | Chr char
  | Fixed1 double
  | Stamp string int
  | Headerline string string double
  | Newline

text \<open>\<open>fileptr\<close> is \<open>None\<close> for a file that was never opened, else what was written.\<close>

record Device =
  devicename :: string
  number_dev :: int
  max_dev :: double
  sum_dev :: double
  scale :: double
  valuetbl :: "double list"
  fileptr :: "out_item list option"

record Metric =
  metricname :: string
  number_met :: int
  max_met :: double
  sum_met :: double
  devicetbl :: "Device list"

record Class =
  classname :: string
  classtype :: char
  startrow :: int
  metrictbl :: "Metric list"

definition numdevices :: "Metric \<Rightarrow> nat" where
  "numdevices m = length (devicetbl m)"

definition nummetrics :: "Class \<Rightarrow> nat" where
  "nummetrics c = length (metrictbl c)"

text \<open>The union \<open>Paramtype\<close> together with the \<open>type\<close> tag of its table entry.\<close>

datatype Paramtype = Character char | Fltpnt double | Longint int | String string

type_synonym Param = "string \<times> Paramtype"

definition FULLSCALEIDX :: nat where "FULLSCALEIDX = 0"
definition METDEVSEPARATORIDX :: nat where "METDEVSEPARATORIDX = 2"
definition SINGFILEDATEFMTIDX :: nat where "SINGFILEDATEFMTIDX = 3"
definition SINGFILEDELIMITERIDX :: nat where "SINGFILEDELIMITERIDX = 4"
definition MULTIFILEDATEFMTIDX :: nat where "MULTIFILEDATEFMTIDX = 5"
definition MULTIFILEDELIMITERIDX :: nat where "MULTIFILEDELIMITERIDX = 6"
definition MULTIFILEHEADERFMTIDX :: nat where "MULTIFILEHEADERFMTIDX = 7"

text \<open>The table after \<open>initialize_parameters\<close>: every value is its default.\<close>

definition paramtbl_default :: "Param list" where
  "paramtbl_default =
    [(''fullscale'', Fltpnt (Finite 100)),
     (''TZ'', String []),
     (''metricdeviceseparator'', String ''_''),
     (''singlefiledateformat'', String ''%x %X''),
     (''singlefiledelimiter'', Character (CHR '','')),
     (''multifiledateformat'', String ''%s''),
     (''multifiledelimiter'', Character (CHR '' '')),
     (''multifileheaderformat'', String [CHR 0x22, CHR ''%'', CHR ''s'', CHR ''|'', CHR ''%'',
         CHR ''.'', CHR ''1'', CHR ''f'', CHR 0x22]),
     (''clockticksfilename'', String ''clockticks''),
     (''clockticks_level_0'', Longint (24*60*60)),
     (''clockticks_level_1'', Longint (12*60*60)),
     (''clockticks_level_2'', Longint (6*60*60)),
     (''clockticks_level_3'', Longint (60*60)),
     (''clockticks_level_4'', Longint (30*60)),
     (''clockticks_level_5'', Longint (15*60)),
     (''clockticks_level_6'', Longint (5*60)),
     (''clockticks_level_7'', Longint 0)]"

text \<open>
  Reading a member of the union. The tag of a table entry never changes, so the
  fall-back cases are not reached from the table above.
\<close>

fun the_character :: "Paramtype \<Rightarrow> char" where
  "the_character (Character c) = c"
| "the_character _ = CHR 0x00"

fun the_string :: "Paramtype \<Rightarrow> string" where
  "the_string (String s) = s"
| "the_string _ = []"

fun the_fltpnt :: "Paramtype \<Rightarrow> double" where
  "the_fltpnt (Fltpnt x) = x"
| "the_fltpnt _ = 0"

definition param_value :: "Param list \<Rightarrow> nat \<Rightarrow> Paramtype" where
  "param_value tbl idx = snd (tbl ! idx)"

text \<open>
  The global variables. \<open>inputfile\<close> is the content of the open input file and
  \<open>unread\<close> the part of it after the position of \<open>inputfileptr\<close>; \<open>is_stdin\<close>
  says that \<open>inputfileptr\<close> is \<open>stdin\<close>, which is not rewound. \<open>singlefile\<close> is what
  has been written to the single output file.
\<close>

record pma =
  classtbl :: "Class list"
  count :: int
  interval :: int
  fullscale :: double
  firsttimestamp :: int
  paramtbl :: "Param list"
  inputfile :: "string list"
  unread :: "string list"
  is_stdin :: bool
  singlefile :: "out_item list"

definition numclasses :: "pma \<Rightarrow> nat" where
  "numclasses s = length (classtbl s)"

subsection \<open>\<^verbatim>\<open>skip_to_stanza\<close>\<close>

text \<open>
  Every line read loses its last character (\<open>inputline[strlen(inputline)-1] = 0\<close>)
  before the comparison. The result is \<open>foundflag\<close> and the lines left unread; the
  caller's \<open>mandatoryflag\<close> turns "not found" into \<open>exit(1)\<close>.
\<close>

fun find_stanza :: "string \<Rightarrow> string list \<Rightarrow> bool \<times> string list" where
  "find_stanza stanza [] = (False, [])"
| "find_stanza stanza (l # ls) =
     (if butlast l = stanza then (True, ls) else find_stanza stanza ls)"

definition skip_to_stanza :: "string \<Rightarrow> bool \<Rightarrow> string list \<Rightarrow> error + string list" where
  "skip_to_stanza stanza mandatoryflag ls =
     (case find_stanza stanza ls of
        (foundflag, rest) \<Rightarrow>
          if \<not> foundflag \<and> mandatoryflag then Inl (Exit 1) else Inr rest)"

subsection \<open>\<^verbatim>\<open>initialize_time_values\<close>\<close>

fun time_values_loop :: "int \<times> int \<Rightarrow> string list \<Rightarrow> error + ((int \<times> int) \<times> string list)" where
  "time_values_loop ci [] = Inr (ci, [])"
| "time_values_loop ci (l # ls) =
     (case parse_input_line l NUMTIMEVALUES of
        Inl e \<Rightarrow> Inl e
      | Inr argtbl \<Rightarrow>
          if length argtbl = NUMTIMEVALUES then
            time_values_loop (atoi (argtbl ! COUNTIDX), atoi (argtbl ! INTERVALIDX)) ls
          else if length argtbl = 0 then Inr (ci, ls)
          else Inl (Exit 1))"

definition initialize_time_values :: "pma \<Rightarrow> error + pma" where
  "initialize_time_values s =
     (case skip_to_stanza TIMEVALUES True (unread s) of
        Inl e \<Rightarrow> Inl e
      | Inr ls \<Rightarrow>
          (case time_values_loop (count s, interval s) ls of
             Inl e \<Rightarrow> Inl e
           | Inr ((c, i), rest) \<Rightarrow> Inr (s\<lparr>count := c, interval := i, unread := rest\<rparr>)))"

subsection \<open>\<^verbatim>\<open>initialize_metadata\<close>\<close>

text \<open>
  \<open>strncpy\<close> keeps at most 32 characters of a name. \<open>*argtbl[CLASSTYPEIDX]\<close> is the
  first character of the second argument (NUL for an empty one).
\<close>

definition first_char :: "string \<Rightarrow> char" where
  "first_char a = (case a of [] \<Rightarrow> CHR 0x00 | c # _ \<Rightarrow> c)"

definition new_metric :: "string \<Rightarrow> Metric" where
  "new_metric name =
     \<lparr>metricname = take MAXMETNAMELEN name, number_met = 0, max_met = 0, sum_met = 0,
      devicetbl = []\<rparr>"

fun metadata_loop :: "int \<Rightarrow> Class list \<Rightarrow> string list \<Rightarrow> error + (Class list \<times> string list)" where
  "metadata_loop cnt tbl [] = Inr (tbl, [])"
| "metadata_loop cnt tbl (l # ls) =
     (case parse_input_line l MAXNUMMETADATA of
        Inl e \<Rightarrow> Inl e
      | Inr argtbl \<Rightarrow>
          if length argtbl \<ge> NUMMETAITEMS + 1 then
            (if first_char (argtbl ! CLASSTYPEIDX) \<noteq> VECTORCLASS \<and>
                first_char (argtbl ! CLASSTYPEIDX) \<noteq> ARRAYCLASS then Inl (Exit 1)
             else if atoi (argtbl ! STARTROWIDX) < 1 \<or> atoi (argtbl ! STARTROWIDX) > cnt
               then Inl (Exit 1)
             else metadata_loop cnt
               (tbl @ [\<lparr>classname = take MAXCLSNAMELEN (argtbl ! CLASSSTRIDX),
                        classtype = first_char (argtbl ! CLASSTYPEIDX),
                        startrow = atoi (argtbl ! STARTROWIDX) - 1,
                        metrictbl = map new_metric (drop NUMMETAITEMS argtbl)\<rparr>]) ls)
          else if length argtbl = 0 then Inr (tbl, ls)
          else metadata_loop cnt tbl ls)"

definition initialize_metadata :: "pma \<Rightarrow> error + pma" where
  "initialize_metadata s =
     (case skip_to_stanza METADATASTR True (unread s) of
        Inl e \<Rightarrow> Inl e
      | Inr ls \<Rightarrow>
          (case metadata_loop (count s) (classtbl s) ls of
             Inl e \<Rightarrow> Inl e
           | Inr (tbl, rest) \<Rightarrow> Inr (s\<lparr>classtbl := tbl, unread := rest\<rparr>)))"

subsection \<open>\<^verbatim>\<open>initialize_timestamp\<close>\<close>

text \<open>The loop state is \<open>firsttimestamp\<close> and \<open>firsttimesetctr\<close>.\<close>

fun timestamp_loop :: "int \<times> nat \<Rightarrow> string list \<Rightarrow> error + ((int \<times> nat) \<times> string list)" where
  "timestamp_loop tc [] = Inr (tc, [])"
| "timestamp_loop tc (l # ls) =
     (case parse_input_line l NUMDATEARGS of
        Inl e \<Rightarrow> Inl e
      | Inr argtbl \<Rightarrow>
          if length argtbl = NUMDATEARGS then
            timestamp_loop (atol (argtbl ! TIMESTAMPIDX), Suc (snd tc)) ls
          else if length argtbl = 0 then Inr (tc, ls)
          else timestamp_loop tc ls)"

definition initialize_timestamp :: "pma \<Rightarrow> error + pma" where
  "initialize_timestamp s =
     (case skip_to_stanza DATESTR True (unread s) of
        Inl e \<Rightarrow> Inl e
      | Inr ls \<Rightarrow>
          (case timestamp_loop (firsttimestamp s, 0) ls of
             Inl e \<Rightarrow> Inl e
           | Inr ((t, firsttimesetctr), rest) \<Rightarrow>
               if firsttimesetctr \<noteq> 1 then Inl (Exit 1)
               else Inr (s\<lparr>firsttimestamp := t, unread := rest\<rparr>)))"

subsection \<open>\<^verbatim>\<open>add_device\<close>\<close>

text \<open>
  \<open>strncmp(a, b, n) == 0\<close> on C strings. The \<open>for\<close> loop over the device table only
  clears \<open>newdeviceflag\<close>. \<open>calloc(count, sizeof(double))\<close> fails for a negative
  \<open>count\<close> (the size overflows), which is \<open>err_exit\<close>; running out of memory is not
  modelled.
\<close>

definition strncmp_eq :: "string \<Rightarrow> string \<Rightarrow> nat \<Rightarrow> bool" where
  "strncmp_eq a b n \<longleftrightarrow> take n a = take n b"

primrec newdeviceflag_loop :: "string \<Rightarrow> Device list \<Rightarrow> bool \<Rightarrow> bool" where
  "newdeviceflag_loop name [] newdeviceflag = newdeviceflag"
| "newdeviceflag_loop name (d # ds) newdeviceflag =
     newdeviceflag_loop name ds
       (if strncmp_eq name (devicename d) MAXDEVNAMELEN then False else newdeviceflag)"

definition new_device :: "int \<Rightarrow> string \<Rightarrow> Device" where
  "new_device cnt name =
     \<lparr>devicename = take MAXDEVNAMELEN name, number_dev = 0, max_dev = 0, sum_dev = 0,
      scale = 0, valuetbl = replicate (nat cnt) 0, fileptr = None\<rparr>"

definition add_device :: "int \<Rightarrow> Metric \<Rightarrow> string \<Rightarrow> error + Metric" where
  "add_device cnt m name =
     (if newdeviceflag_loop name (devicetbl m) True then
        (if cnt < 0 then Inl (Exit 1)
         else Inr (m\<lparr>devicetbl := devicetbl m @ [new_device cnt name]\<rparr>))
      else Inr m)"

subsection \<open>\<^verbatim>\<open>initialize_classes\<close>\<close>

text \<open>\<open>add_device_all\<close> is the \<open>for\<close> loop over \<open>metricidx\<close> that calls \<open>add_device\<close>.\<close>

fun add_device_all :: "int \<Rightarrow> string \<Rightarrow> Metric list \<Rightarrow> error + Metric list" where
  "add_device_all cnt name [] = Inr []"
| "add_device_all cnt name (m # ms) =
     (case add_device cnt m name of
        Inl e \<Rightarrow> Inl e
      | Inr m' \<Rightarrow>
          (case add_device_all cnt name ms of
             Inl e \<Rightarrow> Inl e
           | Inr ms' \<Rightarrow> Inr (m' # ms')))"

fun array_devices_loop :: "int \<Rightarrow> Class \<Rightarrow> string list \<Rightarrow> error + (Class \<times> string list)" where
  "array_devices_loop cnt c [] = Inr (c, [])"
| "array_devices_loop cnt c (l # ls) =
     (case parse_input_line l (MAXNUMMETRICS + 1) of
        Inl e \<Rightarrow> Inl e
      | Inr argtbl \<Rightarrow>
          if length argtbl = nummetrics c + 1 then
            (case add_device_all cnt (argtbl ! 0) (metrictbl c) of
               Inl e \<Rightarrow> Inl e
             | Inr ms \<Rightarrow> array_devices_loop cnt (c\<lparr>metrictbl := ms\<rparr>) ls)
          else if length argtbl = 0 then Inr (c, ls)
          else Inl (Exit 1))"

definition class_devices :: "int \<Rightarrow> Class \<Rightarrow> string list \<Rightarrow> error + (Class \<times> string list)" where
  "class_devices cnt c ls =
     (case skip_to_stanza (classname c @ [STANZATERMCHAR]) True ls of
        Inl e \<Rightarrow> Inl e
      | Inr ls1 \<Rightarrow>
          if classtype c = VECTORCLASS then
            (case ls1 of
               [] \<Rightarrow> Inr (c, [])
             | l # ls2 \<Rightarrow>
                 (case parse_input_line l MAXNUMMETRICS of
                    Inl e \<Rightarrow> Inl e
                  | Inr argtbl \<Rightarrow>
                      if length argtbl = nummetrics c then
                        (case add_device_all cnt NODEVICENAME (metrictbl c) of
                           Inl e \<Rightarrow> Inl e
                         | Inr ms \<Rightarrow> Inr (c\<lparr>metrictbl := ms\<rparr>, ls2))
                      else Inl (Exit 1)))
          else array_devices_loop cnt c ls1)"

fun classes_loop :: "int \<Rightarrow> Class list \<Rightarrow> string list \<Rightarrow> error + (Class list \<times> string list)" where
  "classes_loop cnt [] ls = Inr ([], ls)"
| "classes_loop cnt (c # cs) ls =
     (case class_devices cnt c ls of
        Inl e \<Rightarrow> Inl e
      | Inr (c', ls') \<Rightarrow>
          (case classes_loop cnt cs ls' of
             Inl e \<Rightarrow> Inl e
           | Inr (cs', ls'') \<Rightarrow> Inr (c' # cs', ls'')))"

definition initialize_classes :: "pma \<Rightarrow> error + pma" where
  "initialize_classes s =
     (case classes_loop (count s) (classtbl s) (unread s) of
        Inl e \<Rightarrow> Inl e
      | Inr (tbl, rest) \<Rightarrow>
          Inr (s\<lparr>classtbl := tbl, unread := (if is_stdin s then rest else inputfile s)\<rparr>))"

subsection \<open>\<^verbatim>\<open>check_metric_names\<close>\<close>

text \<open>The four nested \<open>for\<close> loops, with the test of the innermost body.\<close>

definition check_metric_names :: "pma \<Rightarrow> error + pma" where
  "check_metric_names s =
     (if list_ex (\<lambda>class1idx.
           list_ex (\<lambda>metric1idx.
             list_ex (\<lambda>class2idx.
               list_ex (\<lambda>metric2idx.
                   (class1idx \<noteq> class2idx \<or> metric1idx \<noteq> metric2idx) \<and>
                   metricname (metrictbl (classtbl s ! class1idx) ! metric1idx) =
                   metricname (metrictbl (classtbl s ! class2idx) ! metric2idx))
                 [0..<nummetrics (classtbl s ! class2idx)])
               [0..<numclasses s])
             [0..<nummetrics (classtbl s ! class1idx)])
           [0..<numclasses s]
      then Inl (Exit 1) else Inr s)"

subsection \<open>\<^verbatim>\<open>read_configfile\<close>\<close>

text \<open>
  One configuration line with two arguments \<open>name\<close> and \<open>arg\<close>. For a vector class
  the scale goes to \<open>devicetbl[0]\<close> (a null pointer when the metric has no device);
  for an array class a metric name sets every device, and otherwise the first
  device whose \<open>metric sep device\<close> name matches is set. The second component of
  the results is \<open>legalparamflag\<close>.
\<close>

fun config_devices :: "string \<Rightarrow> string \<Rightarrow> double \<Rightarrow> Device list \<Rightarrow> Device list \<times> bool" where
  "config_devices name prefix v [] = ([], False)"
| "config_devices name prefix v (d # ds) =
     (if name = prefix @ devicename d then (d\<lparr>scale := v\<rparr> # ds, True)
      else (case config_devices name prefix v ds of (ds', flag) \<Rightarrow> (d # ds', flag)))"

definition config_metric ::
  "(string \<Rightarrow> double) \<Rightarrow> string \<Rightarrow> string \<Rightarrow> string \<Rightarrow> char \<Rightarrow> Metric \<Rightarrow> error + (Metric \<times> bool)" where
  "config_metric atof name arg sep ctype m =
     (if ctype = VECTORCLASS then
        (if name = metricname m then
           (case devicetbl m of
              [] \<Rightarrow> Inl Null_deref
            | d # ds \<Rightarrow> Inr (m\<lparr>devicetbl := d\<lparr>scale := atof arg\<rparr> # ds\<rparr>, True))
         else Inr (m, False))
      else
        (if name = metricname m then
           Inr (m\<lparr>devicetbl := map (\<lambda>d. d\<lparr>scale := atof arg\<rparr>) (devicetbl m)\<rparr>, True)
         else
           (case config_devices name (metricname m @ sep) (atof arg) (devicetbl m) of
              (ds, flag) \<Rightarrow> Inr (m\<lparr>devicetbl := ds\<rparr>, flag))))"

fun config_metrics ::
  "(string \<Rightarrow> double) \<Rightarrow> string \<Rightarrow> string \<Rightarrow> string \<Rightarrow> char \<Rightarrow> Metric list \<Rightarrow> error + (Metric list \<times> bool)" where
  "config_metrics atof name arg sep ctype [] = Inr ([], False)"
| "config_metrics atof name arg sep ctype (m # ms) =
     (case config_metric atof name arg sep ctype m of
        Inl e \<Rightarrow> Inl e
      | Inr (m', f) \<Rightarrow>
          (case config_metrics atof name arg sep ctype ms of
             Inl e \<Rightarrow> Inl e
           | Inr (ms', g) \<Rightarrow> Inr (m' # ms', f \<or> g)))"

fun config_classes ::
  "(string \<Rightarrow> double) \<Rightarrow> string \<Rightarrow> string \<Rightarrow> string \<Rightarrow> Class list \<Rightarrow> error + (Class list \<times> bool)" where
  "config_classes atof name arg sep [] = Inr ([], False)"
| "config_classes atof name arg sep (c # cs) =
     (case config_metrics atof name arg sep (classtype c) (metrictbl c) of
        Inl e \<Rightarrow> Inl e
      | Inr (ms, f) \<Rightarrow>
          (case config_classes atof name arg sep cs of
             Inl e \<Rightarrow> Inl e
           | Inr (cs', g) \<Rightarrow> Inr (c\<lparr>metrictbl := ms\<rparr> # cs', f \<or> g)))"

text \<open>The loop over \<open>paramtbl\<close>: the first entry of that name takes the value.\<close>

fun config_params :: "(string \<Rightarrow> double) \<Rightarrow> string \<Rightarrow> string \<Rightarrow> Param list \<Rightarrow> Param list" where
  "config_params atof name arg [] = []"
| "config_params atof name arg (p # ps) =
     (if name = fst p then
        (fst p,
         (case snd p of
            Character _ \<Rightarrow> Character (first_char arg)
          | Fltpnt _ \<Rightarrow> Fltpnt (atof arg)
          | Longint _ \<Rightarrow> Longint (atoi arg)
          | String _ \<Rightarrow> String arg)) # ps
      else p # config_params atof name arg ps)"

fun config_loop ::
  "(string \<Rightarrow> double) \<Rightarrow> Class list \<Rightarrow> Param list \<Rightarrow> string list \<Rightarrow> error + (Class list \<times> Param list)" where
  "config_loop atof tbl ptbl [] = Inr (tbl, ptbl)"
| "config_loop atof tbl ptbl (l # ls) =
     (case parse_input_line l 2 of
        Inl e \<Rightarrow> Inl e
      | Inr argtbl \<Rightarrow>
          if length argtbl = 2 then
            (case config_classes atof (argtbl ! 0) (argtbl ! 1)
                    (the_string (param_value ptbl METDEVSEPARATORIDX)) tbl of
               Inl e \<Rightarrow> Inl e
             | Inr (tbl', flag) \<Rightarrow>
                 config_loop atof tbl' (config_params atof (argtbl ! 0) (argtbl ! 1) ptbl) ls)
          else config_loop atof tbl ptbl ls)"

text \<open>The configuration file is \<open>None\<close> when \<open>fopen\<close> fails (\<open>err_exit\<close>).\<close>

definition read_configfile :: "(string \<Rightarrow> double) \<Rightarrow> string list option \<Rightarrow> pma \<Rightarrow> error + pma" where
  "read_configfile atof configfile s =
     (case configfile of
        None \<Rightarrow> Inl (Exit 1)
      | Some ls \<Rightarrow>
          (case config_loop atof (classtbl s) (paramtbl s) ls of
             Inl e \<Rightarrow> Inl e
           | Inr (tbl, ptbl) \<Rightarrow> Inr (s\<lparr>classtbl := tbl, paramtbl := ptbl\<rparr>)))"

subsection \<open>\<^verbatim>\<open>read_vector_stanza\<close>\<close>

text \<open>
  \<open>vector_update\<close> is the body of the \<open>for\<close> loop over \<open>metricidx\<close>: the metric is
  updated first, then \<open>devicetbl[0]\<close>, whose \<open>max\<close> is taken from the metric's
  (already updated) \<open>max\<close>. A write at \<open>valuetbl + rowidx\<close> beyond the buffer is
  \<open>Out_of_bounds\<close>.
\<close>

definition vector_update :: "(string \<Rightarrow> double) \<Rightarrow> nat \<Rightarrow> string \<Rightarrow> Metric \<Rightarrow> error + Metric" where
  "vector_update atof rowidx arg m =
     (case devicetbl m of
        [] \<Rightarrow> Inl Null_deref
      | d # ds \<Rightarrow>
          if rowidx < length (valuetbl d) then
            Inr (m\<lparr>number_met := number_met m + 1,
                   max_met := MAX_macro (max_met m) (atof arg),
                   sum_met := sum_met m + atof arg,
                   devicetbl :=
                     d\<lparr>number_dev := number_dev d + 1,
                       max_dev := MAX_macro (MAX_macro (max_met m) (atof arg)) (atof arg),
                       sum_dev := sum_dev d + atof arg,
                       valuetbl := (valuetbl d)[rowidx := atof arg]\<rparr> # ds\<rparr>)
          else Inl Out_of_bounds)"

fun vector_row :: "(string \<Rightarrow> double) \<Rightarrow> nat \<Rightarrow> string list \<Rightarrow> Metric list \<Rightarrow> error + Metric list" where
  "vector_row atof rowidx args [] = Inr []"
| "vector_row atof rowidx args (m # ms) =
     (case args of
        [] \<Rightarrow> Inl Null_deref
      | a # as \<Rightarrow>
          (case vector_update atof rowidx a m of
             Inl e \<Rightarrow> Inl e
           | Inr m' \<Rightarrow>
               (case vector_row atof rowidx as ms of
                  Inl e \<Rightarrow> Inl e
                | Inr ms' \<Rightarrow> Inr (m' # ms'))))"

text \<open>The \<open>while (fgets ...)\<close> loop; the result carries \<open>rowidx\<close> and the unread lines.\<close>

fun read_vector_loop ::
  "(string \<Rightarrow> double) \<Rightarrow> Class \<Rightarrow> nat \<Rightarrow> string list \<Rightarrow> error + (Class \<times> nat \<times> string list)" where
  "read_vector_loop atof c rowidx [] = Inr (c, rowidx, [])"
| "read_vector_loop atof c rowidx (l # ls) =
     (case parse_input_line l MAXNUMMETRICS of
        Inl e \<Rightarrow> Inl e
      | Inr argtbl \<Rightarrow>
          if length argtbl = nummetrics c then
            (if int rowidx \<ge> startrow c then
               (case vector_row atof rowidx argtbl (metrictbl c) of
                  Inl e \<Rightarrow> Inl e
                | Inr ms \<Rightarrow> read_vector_loop atof (c\<lparr>metrictbl := ms\<rparr>) (Suc rowidx) ls)
             else read_vector_loop atof c (Suc rowidx) ls)
          else if length argtbl = 0 then Inr (c, rowidx, ls)
          else read_vector_loop atof c (Suc rowidx) ls)"

definition read_vector_stanza ::
  "(string \<Rightarrow> double) \<Rightarrow> Class \<Rightarrow> string list \<Rightarrow> error + (Class \<times> string list)" where
  "read_vector_stanza atof c ls =
     (case read_vector_loop atof c 0 ls of
        Inl e \<Rightarrow> Inl e
      | Inr (c', rowidx, rest) \<Rightarrow> Inr (c', rest))"

subsection \<open>\<^verbatim>\<open>read_array_stanza\<close>\<close>

text \<open>
  \<open>array_update\<close> is the \<open>then\<close> branch of the loop body, for a metric with at least
  one device. \<open>array_row\<close> is the \<open>for\<close> loop over \<open>metricidx\<close> with its \<open>break\<close>;
  \<open>rowidx / numdevices\<close> with no device is \<open>Div_by_zero\<close>. Its second result is the
  number of metrics the loop visited, that is, the number of assignments to
  \<open>metricptr\<close>.
\<close>

definition array_update :: "(string \<Rightarrow> double) \<Rightarrow> nat \<Rightarrow> string \<Rightarrow> Metric \<Rightarrow> error + Metric" where
  "array_update atof rowidx arg m =
     (if rowidx div numdevices m <
           length (valuetbl (devicetbl m ! (rowidx mod numdevices m))) then
        Inr (m\<lparr>number_met := number_met m + 1,
               max_met := MAX_macro (max_met m) (atof arg),
               sum_met := sum_met m + atof arg,
               devicetbl := (devicetbl m)[rowidx mod numdevices m :=
                 (devicetbl m ! (rowidx mod numdevices m))
                   \<lparr>number_dev := number_dev (devicetbl m ! (rowidx mod numdevices m)) + 1,
                    max_dev := MAX_macro (max_dev (devicetbl m ! (rowidx mod numdevices m))) (atof arg),
                    sum_dev := sum_dev (devicetbl m ! (rowidx mod numdevices m)) + atof arg,
                    valuetbl := (valuetbl (devicetbl m ! (rowidx mod numdevices m)))
                       [rowidx div numdevices m := atof arg]\<rparr>]\<rparr>)
      else Inl Out_of_bounds)"

fun array_row ::
  "(string \<Rightarrow> double) \<Rightarrow> int \<Rightarrow> nat \<Rightarrow> string list \<Rightarrow> Metric list \<Rightarrow> error + (Metric list \<times> nat)" where
  "array_row atof srow rowidx args [] = Inr ([], 0)"
| "array_row atof srow rowidx args (m # ms) =
     (if numdevices m = 0 then Inl Div_by_zero
      else if int (rowidx div numdevices m) \<ge> srow then
        (case args of
           [] \<Rightarrow> Inl Null_deref
         | a # as \<Rightarrow>
             (case array_update atof rowidx a m of
                Inl e \<Rightarrow> Inl e
              | Inr m' \<Rightarrow>
                  (case array_row atof srow rowidx as ms of
                     Inl e \<Rightarrow> Inl e
                   | Inr (ms', k) \<Rightarrow> Inr (m' # ms', Suc k))))
      else Inr (m # ms, 1))"

text \<open>
  The \<open>while (fgets ...)\<close> loop. \<open>metricptr\<close> is \<open>None\<close> for the null pointer, else the
  index of the metric it points to.
\<close>

fun read_array_loop ::
  "(string \<Rightarrow> double) \<Rightarrow> Class \<Rightarrow> nat \<Rightarrow> nat option \<Rightarrow> string list \<Rightarrow>
     error + (Class \<times> nat \<times> nat option \<times> string list)" where
  "read_array_loop atof c rowidx metricptr [] = Inr (c, rowidx, metricptr, [])"
| "read_array_loop atof c rowidx metricptr (l # ls) =
     (case parse_input_line l (MAXNUMMETRICS + 1) of
        Inl e \<Rightarrow> Inl e
      | Inr argtbl \<Rightarrow>
          if length argtbl = nummetrics c + 1 then
            (case array_row atof (startrow c) rowidx (tl argtbl) (metrictbl c) of
               Inl e \<Rightarrow> Inl e
             | Inr (ms, k) \<Rightarrow>
                 read_array_loop atof (c\<lparr>metrictbl := ms\<rparr>) (Suc rowidx)
                   (if k = 0 then metricptr else Some (k - 1)) ls)
          else if length argtbl = 0 then Inr (c, rowidx, metricptr, ls)
          else read_array_loop atof c (Suc rowidx) metricptr ls)"

text \<open>
  After the loop the row-count check reads \<open>metricptr->numdevices\<close>, whatever
  \<open>metricptr\<close> is.
\<close>

definition read_array_stanza ::
  "(string \<Rightarrow> double) \<Rightarrow> Class \<Rightarrow> string list \<Rightarrow> error + (Class \<times> string list)" where
  "read_array_stanza atof c ls =
     (case read_array_loop atof c 0 None ls of
        Inl e \<Rightarrow> Inl e
      | Inr (c', rowidx, metricptr, rest) \<Rightarrow>
          (case metricptr of
             None \<Rightarrow> Inl Null_deref
           | Some idx \<Rightarrow> Inr (c', rest)))"

subsection \<open>The output emitters\<close>

text \<open>
  Two helpers for loops whose body can fail: \<open>collect\<close> concatenates what the
  bodies write, \<open>mapE\<close> replaces every element by the body's result.
\<close>

fun collect :: "('a \<Rightarrow> error + 'b list) \<Rightarrow> 'a list \<Rightarrow> error + 'b list" where
  "collect f [] = Inr []"
| "collect f (x # xs) =
     (case f x of
        Inl e \<Rightarrow> Inl e
      | Inr ys \<Rightarrow> (case collect f xs of Inl e \<Rightarrow> Inl e | Inr zs \<Rightarrow> Inr (ys @ zs)))"

fun mapE :: "('a \<Rightarrow> error + 'b) \<Rightarrow> 'a list \<Rightarrow> error + 'b list" where
  "mapE f [] = Inr []"
| "mapE f (x # xs) =
     (case f x of
        Inl e \<Rightarrow> Inl e
      | Inr y \<Rightarrow> (case mapE f xs of Inl e \<Rightarrow> Inl e | Inr ys \<Rightarrow> Inr (y # ys)))"

text \<open>\<^verbatim>\<open>output_singlefile_headers\<close>: the header entries of one metric, then the line.\<close>

definition header_metric :: "Param list \<Rightarrow> Class \<Rightarrow> Metric \<Rightarrow> error + out_item list" where
  "header_metric ptbl c m =
     (if classtype c = VECTORCLASS then
        (case devicetbl m of
           [] \<Rightarrow> Inl Null_deref
         | d # ds \<Rightarrow>
             Inr (if scale d \<noteq> 0 then
                    [Chr (the_character (param_value ptbl SINGFILEDELIMITERIDX)),
                     Text (metricname m)]
                  else []))
      else
        Inr (concat (map (\<lambda>d.
               if scale d \<noteq> 0 then
                 [Chr (the_character (param_value ptbl SINGFILEDELIMITERIDX)),
                  Text (metricname m),
                  Text (the_string (param_value ptbl METDEVSEPARATORIDX)),
                  Text (devicename d)]
               else []) (devicetbl m))))"

definition output_singlefile_headers :: "pma \<Rightarrow> error + out_item list" where
  "output_singlefile_headers s =
     (case collect (\<lambda>c. collect (header_metric (paramtbl s) c) (metrictbl c)) (classtbl s) of
        Inl e \<Rightarrow> Inl e
      | Inr items \<Rightarrow> Inr (Text ''Time'' # items @ [Newline]))"

text \<open>
  \<^verbatim>\<open>output_singlefile_body\<close>: what one device contributes to the row \<open>rowidx\<close>, one
  metric, one row, all rows. Reading \<open>valueptr[rowidx]\<close> beyond the buffer is
  \<open>Out_of_bounds\<close>.
\<close>

definition body_device :: "pma \<Rightarrow> Class \<Rightarrow> nat \<Rightarrow> Device \<Rightarrow> error + out_item list" where
  "body_device s c rowidx d =
     (if scale d \<noteq> 0 then
        (if int rowidx \<ge> startrow c then
           (if rowidx < length (valuetbl d) then
              Inr [Chr (the_character (param_value (paramtbl s) SINGFILEDELIMITERIDX)),
                   Fixed1 (fullscale s / scale d * valuetbl d ! rowidx)]
            else Inl Out_of_bounds)
         else Inr [Chr (the_character (param_value (paramtbl s) SINGFILEDELIMITERIDX))])
      else Inr [])"

definition body_metric :: "pma \<Rightarrow> Class \<Rightarrow> nat \<Rightarrow> Metric \<Rightarrow> error + out_item list" where
  "body_metric s c rowidx m =
     (if classtype c = VECTORCLASS then
        (case devicetbl m of
           [] \<Rightarrow> Inl Null_deref
         | d # ds \<Rightarrow> body_device s c rowidx d)
      else collect (body_device s c rowidx) (devicetbl m))"

definition body_row :: "pma \<Rightarrow> int \<Rightarrow> nat \<Rightarrow> error + out_item list" where
  "body_row s timestamp rowidx =
     (case collect (\<lambda>c. collect (body_metric s c rowidx) (metrictbl c)) (classtbl s) of
        Inl e \<Rightarrow> Inl e
      | Inr items \<Rightarrow>
          Inr (Stamp (the_string (param_value (paramtbl s) SINGFILEDATEFMTIDX))
                 (timestamp + (int rowidx + 1) * interval s) # items @ [Newline]))"

definition output_singlefile_body :: "pma \<Rightarrow> int \<Rightarrow> error + out_item list" where
  "output_singlefile_body s timestamp = collect (body_row s timestamp) [0..<nat (count s)]"

text \<open>
  \<^verbatim>\<open>prepare_multi_output_files\<close>: a file is opened for a device with a non-zero scale
  and its header line is written. The directory checks and a failing \<open>fopen\<close> are
  not modelled, nor is the clockticks file.
\<close>

definition open_series :: "Param list \<Rightarrow> string \<Rightarrow> Device \<Rightarrow> Device" where
  "open_series ptbl name d =
     (if scale d \<noteq> 0 then
        d\<lparr>fileptr := Some [Headerline (the_string (param_value ptbl MULTIFILEHEADERFMTIDX))
                             name (scale d), Newline]\<rparr>
      else d)"

definition prepare_metric :: "Param list \<Rightarrow> Class \<Rightarrow> Metric \<Rightarrow> error + Metric" where
  "prepare_metric ptbl c m =
     (if classtype c = VECTORCLASS then
        (case devicetbl m of
           [] \<Rightarrow> Inl Null_deref
         | d # ds \<Rightarrow> Inr (m\<lparr>devicetbl := open_series ptbl (metricname m) d # ds\<rparr>))
      else
        Inr (m\<lparr>devicetbl :=
               map (\<lambda>d. open_series ptbl
                      (metricname m @ the_string (param_value ptbl METDEVSEPARATORIDX) @
                       devicename d) d) (devicetbl m)\<rparr>))"

definition prepare_class :: "Param list \<Rightarrow> Class \<Rightarrow> error + Class" where
  "prepare_class ptbl c =
     (case mapE (prepare_metric ptbl c) (metrictbl c) of
        Inl e \<Rightarrow> Inl e
      | Inr ms \<Rightarrow> Inr (c\<lparr>metrictbl := ms\<rparr>))"

definition prepare_multi_output_files :: "pma \<Rightarrow> error + pma" where
  "prepare_multi_output_files s =
     (case mapE (prepare_class (paramtbl s)) (classtbl s) of
        Inl e \<Rightarrow> Inl e
      | Inr tbl \<Rightarrow> Inr (s\<lparr>classtbl := tbl\<rparr>))"

text \<open>
  \<^verbatim>\<open>output_multifile_bodies_data\<close>: one device, one metric, one class at the row
  \<open>rowidx\<close>, then the loop over the rows. \<open>fprintf\<close> to a file that was never
  opened is \<open>Null_deref\<close>.
\<close>

definition multi_device :: "pma \<Rightarrow> Class \<Rightarrow> int \<Rightarrow> nat \<Rightarrow> Device \<Rightarrow> error + Device" where
  "multi_device s c timestamp rowidx d =
     (if scale d \<noteq> 0 \<and> int rowidx \<ge> startrow c then
        (if rowidx < length (valuetbl d) then
           (case fileptr d of
              None \<Rightarrow> Inl Null_deref
            | Some written \<Rightarrow>
                Inr (d\<lparr>fileptr := Some (written @
                  [Stamp (the_string (param_value (paramtbl s) MULTIFILEDATEFMTIDX))
                     (timestamp + (int rowidx + 1) * interval s),
                   Chr (the_character (param_value (paramtbl s) MULTIFILEDELIMITERIDX)),
                   Fixed1 (fullscale s / scale d * valuetbl d ! rowidx),
                   Newline])\<rparr>))
         else Inl Out_of_bounds)
      else Inr d)"

definition multi_metric :: "pma \<Rightarrow> Class \<Rightarrow> int \<Rightarrow> nat \<Rightarrow> Metric \<Rightarrow> error + Metric" where
  "multi_metric s c timestamp rowidx m =
     (if classtype c = VECTORCLASS then
        (case devicetbl m of
           [] \<Rightarrow> Inl Null_deref
         | d # ds \<Rightarrow>
             (case multi_device s c timestamp rowidx d of
                Inl e \<Rightarrow> Inl e
              | Inr d' \<Rightarrow> Inr (m\<lparr>devicetbl := d' # ds\<rparr>)))
      else
        (case mapE (multi_device s c timestamp rowidx) (devicetbl m) of
           Inl e \<Rightarrow> Inl e
         | Inr ds \<Rightarrow> Inr (m\<lparr>devicetbl := ds\<rparr>)))"

definition multi_class :: "pma \<Rightarrow> int \<Rightarrow> nat \<Rightarrow> Class \<Rightarrow> error + Class" where
  "multi_class s timestamp rowidx c =
     (case mapE (multi_metric s c timestamp rowidx) (metrictbl c) of
        Inl e \<Rightarrow> Inl e
      | Inr ms \<Rightarrow> Inr (c\<lparr>metrictbl := ms\<rparr>))"

fun multi_rows :: "pma \<Rightarrow> int \<Rightarrow> nat list \<Rightarrow> Class list \<Rightarrow> error + Class list" where
  "multi_rows s timestamp [] tbl = Inr tbl"
| "multi_rows s timestamp (rowidx # rows) tbl =
     (case mapE (multi_class s timestamp rowidx) tbl of
        Inl e \<Rightarrow> Inl e
      | Inr tbl' \<Rightarrow> multi_rows s timestamp rows tbl')"

definition output_multifile_bodies_data :: "pma \<Rightarrow> int \<Rightarrow> error + pma" where
  "output_multifile_bodies_data s timestamp =
     (case multi_rows s timestamp [0..<nat (count s)] (classtbl s) of
        Inl e \<Rightarrow> Inl e
      | Inr tbl \<Rightarrow> Inr (s\<lparr>classtbl := tbl\<rparr>))"

subsection \<open>\<^verbatim>\<open>read_inputfile\<close>\<close>

text \<open>
  The command line: \<open>configfilename\<close> is \<open>None\<close> without \<open>-c\<close>, else the content of the
  configuration file (\<open>None\<close> when it cannot be opened); the other two say whether
  \<open>-s\<close> and \<open>-m\<close> were given.
\<close>

record options =
  configfilename :: "string list option option"
  singlefilename :: bool
  multifiledirname :: bool

definition read_class ::
  "(string \<Rightarrow> double) \<Rightarrow> Class \<Rightarrow> string list \<Rightarrow> error + (Class \<times> string list)" where
  "read_class atof c ls =
     (case skip_to_stanza (classname c @ [STANZATERMCHAR]) False ls of
        Inl e \<Rightarrow> Inl e
      | Inr ls1 \<Rightarrow>
          if classtype c = VECTORCLASS then read_vector_stanza atof c ls1
          else read_array_stanza atof c ls1)"

fun read_classes ::
  "(string \<Rightarrow> double) \<Rightarrow> Class list \<Rightarrow> string list \<Rightarrow> error + (Class list \<times> string list)" where
  "read_classes atof [] ls = Inr ([], ls)"
| "read_classes atof (c # cs) ls =
     (case read_class atof c ls of
        Inl e \<Rightarrow> Inl e
      | Inr (c', ls') \<Rightarrow>
          (case read_classes atof cs ls' of
             Inl e \<Rightarrow> Inl e
           | Inr (cs', ls'') \<Rightarrow> Inr (c' # cs', ls'')))"

text \<open>
  One data set: the line after the \<open>DATE:\<close> marker has been read into \<open>l\<close> and
  \<open>ls\<close> are the lines after it. The results are the new state, the time stamp and
  the unread lines.
\<close>

definition read_dataset ::
  "(string \<Rightarrow> double) \<Rightarrow> options \<Rightarrow> pma \<Rightarrow> int \<Rightarrow> string \<Rightarrow> string list \<Rightarrow>
     error + (pma \<times> int \<times> string list)" where
  "read_dataset atof opts s timestamp l ls =
     (case parse_input_line l NUMDATEARGS of
        Inl e \<Rightarrow> Inl e
      | Inr argtbl \<Rightarrow>
          (case read_classes atof (classtbl s) ls of
             Inl e \<Rightarrow> Inl e
           | Inr (tbl, rest) \<Rightarrow>
               (case (if singlefilename opts then
                        output_singlefile_body (s\<lparr>classtbl := tbl\<rparr>)
                          (if length argtbl = NUMDATEARGS then atol (argtbl ! TIMESTAMPIDX)
                           else timestamp)
                      else Inr []) of
                  Inl e \<Rightarrow> Inl e
                | Inr items \<Rightarrow>
                    (case (if multifiledirname opts then
                             output_multifile_bodies_data (s\<lparr>classtbl := tbl\<rparr>)
                               (if length argtbl = NUMDATEARGS then atol (argtbl ! TIMESTAMPIDX)
                                else timestamp)
                           else Inr (s\<lparr>classtbl := tbl\<rparr>)) of
                       Inl e \<Rightarrow> Inl e
                     | Inr s' \<Rightarrow>
                         Inr (s'\<lparr>singlefile := singlefile s @ items\<rparr>,
                              (if length argtbl = NUMDATEARGS then atol (argtbl ! TIMESTAMPIDX)
                               else timestamp),
                              rest)))))"

lemma find_stanza_length: "length (snd (find_stanza stanza ls)) \<le> length ls"
  by (induction ls) auto

lemma skip_to_stanza_length:
  "skip_to_stanza stanza flag ls = Inr rest \<Longrightarrow> length rest \<le> length ls"
  using find_stanza_length [of stanza ls]
  by (auto simp: skip_to_stanza_def split: prod.splits if_splits)

lemma read_vector_loop_length:
  "read_vector_loop atof c rowidx ls = Inr (c', r, rest) \<Longrightarrow> length rest \<le> length ls"
proof (induction ls arbitrary: c rowidx)
  case Nil
  then show ?case by simp
next
  case (Cons l ls)
  then show ?case
    by (fastforce split: sum.splits if_splits)
qed

lemma read_array_loop_length:
  "read_array_loop atof c rowidx mp ls = Inr (c', r, mp', rest) \<Longrightarrow> length rest \<le> length ls"
proof (induction ls arbitrary: c rowidx mp)
  case Nil
  then show ?case by simp
next
  case (Cons l ls)
  then show ?case
    by (fastforce split: sum.splits if_splits prod.splits)
qed

lemma read_class_length:
  "read_class atof c ls = Inr (c', rest) \<Longrightarrow> length rest \<le> length ls"
proof -
  assume a: "read_class atof c ls = Inr (c', rest)"
  then obtain ls1 where s: "skip_to_stanza (classname c @ [STANZATERMCHAR]) False ls = Inr ls1"
    by (auto simp: read_class_def split: sum.splits)
  have "length rest \<le> length ls1"
    using a s read_vector_loop_length read_array_loop_length
    by (auto simp: read_class_def read_vector_stanza_def read_array_stanza_def
        split: sum.splits if_splits prod.splits option.splits)
  then show ?thesis
    using skip_to_stanza_length [OF s] by simp
qed

lemma read_classes_length:
  "read_classes atof cs ls = Inr (cs', rest) \<Longrightarrow> length rest \<le> length ls"
proof (induction cs arbitrary: ls cs')
  case Nil
  then show ?case by simp
next
  case (Cons c cs)
  then show ?case
    by (fastforce split: sum.splits prod.splits dest: read_class_length)
qed

lemma read_dataset_length:
  "read_dataset atof opts s timestamp l ls = Inr (s', t, rest) \<Longrightarrow> length rest \<le> length ls"
  by (auto simp: read_dataset_def split: sum.splits prod.splits dest: read_classes_length)

text \<open>
  The \<open>while (1)\<close> loop of \<open>read_inputfile\<close>, on the unread lines: skip to the next
  \<open>DATE:\<close> marker (not mandatory), stop when no line follows, else read one data
  set and go on.
\<close>

function read_inputfile_loop ::
  "(string \<Rightarrow> double) \<Rightarrow> options \<Rightarrow> pma \<Rightarrow> int \<Rightarrow> string list \<Rightarrow> error + (pma \<times> int)" where
  "read_inputfile_loop atof opts s timestamp ls =
     (case skip_to_stanza DATESTR False ls of
        Inl e \<Rightarrow> Inl e
      | Inr [] \<Rightarrow> Inr (s\<lparr>unread := []\<rparr>, timestamp)
      | Inr (l # ls1) \<Rightarrow>
          (case read_dataset atof opts s timestamp l ls1 of
             Inl e \<Rightarrow> Inl e
           | Inr (s', timestamp', rest) \<Rightarrow> read_inputfile_loop atof opts s' timestamp' rest))"
  by pat_completeness auto

termination read_inputfile_loop
proof (relation "measure (\<lambda>(atof, opts, s, timestamp, ls). length ls)", goal_cases)
  case 1
  show ?case by simp
next
  case (2 atof opts s timestamp ls x2 l ls1 x2a s' y timestamp' rest)
  have "length (l # ls1) \<le> length ls"
    using 2 skip_to_stanza_length by blast
  moreover have "length rest \<le> length ls1"
    using 2 read_dataset_length by blast
  ultimately show ?case
    by simp
qed

definition read_inputfile :: "(string \<Rightarrow> double) \<Rightarrow> options \<Rightarrow> pma \<Rightarrow> error + (pma \<times> int)" where
  "read_inputfile atof opts s = read_inputfile_loop atof opts s 0 (unread s)"

subsection \<open>\<^verbatim>\<open>main\<close>\<close>

text \<open>An input file argument: a file that cannot be opened, a file, or \<open>-\<close>.\<close>

datatype input = Unopenable | File "string list" | Stdin "string list"

definition bind_result :: "error + 'a \<Rightarrow> ('a \<Rightarrow> error + 'b) \<Rightarrow> error + 'b" where
  "bind_result r f = (case r of Inl e \<Rightarrow> Inl e | Inr x \<Rightarrow> f x)"

definition initialize_parameters :: "pma \<Rightarrow> pma" where
  "initialize_parameters s =
     s\<lparr>paramtbl := paramtbl_default,
       fullscale := the_fltpnt (param_value paramtbl_default FULLSCALEIDX)\<rparr>"

definition prepare_single_output_file :: "options \<Rightarrow> pma \<Rightarrow> error + pma" where
  "prepare_single_output_file opts s =
     (if singlefilename opts then
        (case output_singlefile_headers s of
           Inl e \<Rightarrow> Inl e
         | Inr items \<Rightarrow> Inr (s\<lparr>singlefile := items\<rparr>))
      else Inr s)"

text \<open>The block under \<open>if (firstfileflag)\<close>, in the order of the source.\<close>

definition first_file_init :: "(string \<Rightarrow> double) \<Rightarrow> options \<Rightarrow> pma \<Rightarrow> error + pma" where
  "first_file_init atof opts s =
     bind_result (initialize_time_values (initialize_parameters s)) (\<lambda>s1.
     bind_result (initialize_metadata s1) (\<lambda>s2.
     bind_result (initialize_timestamp s2) (\<lambda>s3.
     bind_result (initialize_classes s3) (\<lambda>s4.
     bind_result (case configfilename opts of
                    None \<Rightarrow> Inr s4
                  | Some configfile \<Rightarrow> read_configfile atof configfile s4) (\<lambda>s5.
     bind_result (check_metric_names s5) (\<lambda>s6.
     bind_result (prepare_single_output_file opts s6) (\<lambda>s7.
       (if multifiledirname opts then prepare_multi_output_files s7 else Inr s7))))))))"

definition open_input :: "input \<Rightarrow> pma \<Rightarrow> pma" where
  "open_input inp s =
     (case inp of
        Unopenable \<Rightarrow> s
      | File ls \<Rightarrow> s\<lparr>inputfile := ls, unread := ls, is_stdin := False\<rparr>
      | Stdin ls \<Rightarrow> s\<lparr>inputfile := ls, unread := ls, is_stdin := True\<rparr>)"

text \<open>
  The loop over the input file arguments; its state is \<open>firstfileflag\<close>, the
  globals and \<open>lasttimestamp\<close>. A file that cannot be opened is skipped.
\<close>

fun main_loop ::
  "(string \<Rightarrow> double) \<Rightarrow> options \<Rightarrow> bool \<Rightarrow> pma \<Rightarrow> int \<Rightarrow> input list \<Rightarrow> error + (pma \<times> int)" where
  "main_loop atof opts firstfileflag s lasttimestamp [] = Inr (s, lasttimestamp)"
| "main_loop atof opts firstfileflag s lasttimestamp (inp # inps) =
     (if inp = Unopenable then main_loop atof opts firstfileflag s lasttimestamp inps
      else
        (case (if firstfileflag then first_file_init atof opts (open_input inp s)
               else Inr (open_input inp s)) of
           Inl e \<Rightarrow> Inl e
         | Inr s1 \<Rightarrow>
             (case read_inputfile atof opts s1 of
                Inl e \<Rightarrow> Inl e
              | Inr (s2, t) \<Rightarrow> main_loop atof opts False s2 t inps)))"

text \<open>The globals at program start (static storage is zeroed).\<close>

definition initial_state :: pma where
  "initial_state =
     \<lparr>classtbl = [], count = 0, interval = 0, fullscale = 0, firsttimestamp = 0,
      paramtbl = map (\<lambda>p. (fst p, String [])) paramtbl_default,
      inputfile = [], unread = [], is_stdin = False, singlefile = []\<rparr>"

text \<open>
  \<open>pma_main\<close> is \<open>main\<close> after option parsing: no input file argument is the usage
  message and \<open>exit(1)\<close>; \<open>Inr\<close> is the final \<open>exit(0)\<close> with the globals at that
  point. The clockticks file, the parameter table and the summary that \<open>main\<close>
  prints at the end are not modelled.
\<close>

definition pma_main :: "(string \<Rightarrow> double) \<Rightarrow> options \<Rightarrow> input list \<Rightarrow> error + pma" where
  "pma_main atof opts inputs =
     (if inputs = [] then Inl (Exit 1)
      else
        (case main_loop atof opts True initial_state 0 inputs of
           Inl e \<Rightarrow> Inl e
         | Inr (s, lasttimestamp) \<Rightarrow> Inr s))"

subsection \<open>Predicates on stanza lines\<close>

text \<open>
  A line of an array stanza is blank when the tokenizer finds no argument in it (an
  empty or comment-only line: it ends the stanza), well formed when it has one
  argument more than the class has metrics, and malformed when it has some other
  number of arguments.
\<close>

definition blank_line :: "string \<Rightarrow> bool" where
  "blank_line l = (parse_input_line l (MAXNUMMETRICS + 1) = Inr [])"

definition malformed_array_line :: "Class \<Rightarrow> string \<Rightarrow> bool" where
  "malformed_array_line c l =
     (case parse_input_line l (MAXNUMMETRICS + 1) of
        Inl e \<Rightarrow> False
      | Inr argtbl \<Rightarrow> length argtbl \<noteq> nummetrics c + 1 \<and> length argtbl \<noteq> 0)"

text \<open>
  The loop of \<open>array_row\<close> reaches metric \<open>i\<close> and stores its value when every
  metric up to \<open>i\<close> passes the start-row test.
\<close>

definition reaches :: "int \<Rightarrow> nat \<Rightarrow> Metric list \<Rightarrow> nat \<Rightarrow> bool" where
  "reaches srow rowidx ms i \<longleftrightarrow> (\<forall>j\<le>i. srow \<le> int (rowidx div numdevices (ms ! j)))"

subsection \<open>Example data\<close>

text \<open>
  \<open>atof_example\<close> reads a \<open>double\<close> the way \<open>atof\<close> does on the string \<open>nan\<close> and on
  plain integer numerals of a magnitude up to \<open>2 ^ 53\<close>; it stands for \<open>atof\<close> in
  the examples only.
\<close>

definition atof_example :: "string \<Rightarrow> double" where
  "atof_example a = (if a = ''nan'' then NaN else Finite (of_int (atoi a)))"

definition line :: "string \<Rightarrow> string" where
  "line a = a @ [CHR 0x0A]"

definition no_options :: options where
  "no_options = \<lparr>configfilename = None, singlefilename = False, multifiledirname = False\<rparr>"

definition tps_metric :: Metric where
  "tps_metric =
     \<lparr>metricname = ''tps'', number_met = 0, max_met = 0, sum_met = 0,
      devicetbl = [\<lparr>devicename = ''sda'', number_dev = 0, max_dev = 0, sum_dev = 0,
                    scale = 0, valuetbl = [0, 0], fileptr = None\<rparr>]\<rparr>"

definition io_class :: Class where
  "io_class =
     \<lparr>classname = ''IO'', classtype = ARRAYCLASS, startrow = 0, metrictbl = [tps_metric]\<rparr>"

text \<open>An input file whose array stanza \<open>IO:\<close> is followed by a blank line at once.\<close>

definition empty_stanza_file :: "string list" where
  "empty_stanza_file =
     map line [''TIME_VALUES:'', ''2 10'', [], ''METADATA:'', ''IO A 1 tps'', [],
               ''DATE:'', ''1000'', [], ''IO:'', []]"

definition two_dev_metric :: Metric where
  "two_dev_metric =
     \<lparr>metricname = ''tps'', number_met = 0, max_met = 0, sum_met = 0,
      devicetbl = [\<lparr>devicename = ''sda'', number_dev = 0, max_dev = 0, sum_dev = 0,
                    scale = 0, valuetbl = [0, 0], fileptr = None\<rparr>,
                   \<lparr>devicename = ''sdb'', number_dev = 0, max_dev = 0, sum_dev = 0,
                    scale = 0, valuetbl = [0, 0], fileptr = None\<rparr>]\<rparr>"

subsection \<open>Invariants of the metric table\<close>

text \<open>
  A property \<open>J\<close> of one metric is kept by the whole program when it holds for a
  fresh metric and is kept by the five ways in which the program changes a
  metric: a device is appended, devices are replaced by devices with the same
  count, maximum and sum (only a scale or an output file changed), and one value
  is aggregated by the vector or by the array reader. \<open>G\<close> is what is known of
  the tokens that the readers pass to \<open>atof\<close>.
\<close>

definition same_aggregates :: "Device \<Rightarrow> Device \<Rightarrow> bool" where
  "same_aggregates d d' \<longleftrightarrow>
     number_dev d' = number_dev d \<and> max_dev d' = max_dev d \<and> sum_dev d' = sum_dev d"

definition metric_invariant ::
  "(string \<Rightarrow> double) \<Rightarrow> (string \<Rightarrow> bool) \<Rightarrow> (Metric \<Rightarrow> bool) \<Rightarrow> bool" where
  "metric_invariant atof G J \<longleftrightarrow>
     (\<forall>name. J (new_metric name)) \<and>
     (\<forall>m cnt name. J m \<longrightarrow> J (m\<lparr>devicetbl := devicetbl m @ [new_device cnt name]\<rparr>)) \<and>
     (\<forall>m ds. J m \<longrightarrow> list_all2 same_aggregates (devicetbl m) ds \<longrightarrow> J (m\<lparr>devicetbl := ds\<rparr>)) \<and>
     (\<forall>m m' rowidx arg. G arg \<longrightarrow> J m \<longrightarrow> vector_update atof rowidx arg m = Inr m' \<longrightarrow> J m') \<and>
     (\<forall>m m' rowidx arg. G arg \<longrightarrow> J m \<longrightarrow> numdevices m \<noteq> 0 \<longrightarrow>
        array_update atof rowidx arg m = Inr m' \<longrightarrow> J m')"

text \<open>
  The value tokens of a line: all its tokens when it is read as a line of a vector
  stanza, and all but the first (the device name) when it is read as a line of
  an array stanza. \<open>line_tokens_ok G l\<close> says that they all satisfy \<open>G\<close>, and
  \<open>input_tokens_ok G inp\<close> that this holds of every line of an input file.
\<close>

definition line_tokens_ok :: "(string \<Rightarrow> bool) \<Rightarrow> string \<Rightarrow> bool" where
  "line_tokens_ok G l \<longleftrightarrow>
     (case parse_input_line l MAXNUMMETRICS of
        Inl e \<Rightarrow> True
      | Inr argtbl \<Rightarrow> list_all G argtbl) \<and>
     (case parse_input_line l (MAXNUMMETRICS + 1) of
        Inl e \<Rightarrow> True
      | Inr argtbl \<Rightarrow> list_all G (tl argtbl))"

definition input_tokens_ok :: "(string \<Rightarrow> bool) \<Rightarrow> input \<Rightarrow> bool" where
  "input_tokens_ok G inp =
     (case inp of
        Unopenable \<Rightarrow> True
      | File ls \<Rightarrow> list_all (line_tokens_ok G) ls
      | Stdin ls \<Rightarrow> list_all (line_tokens_ok G) ls)"

definition all_metrics :: "(Metric \<Rightarrow> bool) \<Rightarrow> Class list \<Rightarrow> bool" where
  "all_metrics J tbl \<longleftrightarrow> list_all (\<lambda>c. list_all J (metrictbl c)) tbl"

text \<open>
  A first input file with a vector class \<open>VM\<close> (metric \<open>cpu\<close>) and an array class
  \<open>IO\<close> (metric \<open>tps\<close>, devices \<open>sda\<close> and \<open>sdb\<close>), two samples each, and the class
  table at the end of \<open>main\<close> on it.
\<close>

definition example_file :: "string list" where
  "example_file =
     map line [''TIME_VALUES:'', ''2 10'', [], ''METADATA:'', ''VM V 1 cpu'', ''IO A 1 tps'', [],
               ''DATE:'', ''1000'', [], ''VM:'', ''5'', ''7'', [],
               ''IO:'', ''sda 1'', ''sdb 2'', ''sda 3'', ''sdb 4'', []]"

definition example_classtbl :: "Class list" where
  "example_classtbl =
     [\<lparr>classname = ''VM'', classtype = CHR ''V'', startrow = 0,
       metrictbl =
         [\<lparr>metricname = ''cpu'', number_met = 2, max_met = Finite 7, sum_met = Finite 12,
           devicetbl =
             [\<lparr>devicename = ''None'', number_dev = 2, max_dev = Finite 7, sum_dev = Finite 12, scale = 0,
               valuetbl = [Finite 5, Finite 7], fileptr = None\<rparr>]\<rparr>]\<rparr>,
      \<lparr>classname = ''IO'', classtype = CHR ''A'', startrow = 0,
       metrictbl =
         [\<lparr>metricname = ''tps'', number_met = 4, max_met = Finite 4, sum_met = Finite 10,
           devicetbl =
             [\<lparr>devicename = ''sda'', number_dev = 2, max_dev = Finite 3, sum_dev = Finite 4, scale = 0,
               valuetbl = [Finite 1, Finite 3], fileptr = None\<rparr>,
              \<lparr>devicename = ''sdb'', number_dev = 2, max_dev = Finite 4, sum_dev = Finite 6, scale = 0,
               valuetbl = [Finite 2, Finite 4], fileptr = None\<rparr>]\<rparr>]\<rparr>]"

subsection \<open>Predicates on the \<open>DATE:\<close> block\<close>



text \<open>\<open>is_exit\<close> holds of a result that is a call of \<open>exit\<close>.\<close>

definition is_exit :: "error + 'a \<Rightarrow> bool" where
  "is_exit r = (case r of Inl (Exit n) \<Rightarrow> True | _ \<Rightarrow> False)"




subsection \<open>Metric names and the first-file phases\<close>

text \<open>
  The metric names of a class table, class by class; \<open>duplicate_names\<close> is the test
  of \<open>check_metric_names\<close> on such a table of names. \<open>first_file_scan\<close> is the part
  of the first-file block of \<open>main\<close> that runs before the configuration file is
  read and before \<open>check_metric_names\<close>: it ends with \<open>initialize_classes\<close>.
\<close>

definition metric_names :: "Class list \<Rightarrow> string list list" where
  "metric_names tbl = map (\<lambda>c. map metricname (metrictbl c)) tbl"

definition duplicate_names :: "string list list \<Rightarrow> bool" where
  "duplicate_names N =
     list_ex (\<lambda>i. list_ex (\<lambda>j. list_ex (\<lambda>k. list_ex (\<lambda>l.
         (i \<noteq> k \<or> j \<noteq> l) \<and> N ! i ! j = N ! k ! l)
       [0..<length (N ! k)]) [0..<length N]) [0..<length (N ! i)]) [0..<length N]"

definition first_file_scan :: "pma \<Rightarrow> error + pma" where
  "first_file_scan s =
     bind_result (initialize_time_values (initialize_parameters s)) (\<lambda>s1.
     bind_result (initialize_metadata s1) (\<lambda>s2.
     bind_result (initialize_timestamp s2) initialize_classes))"

text \<open>
  An input file whose \<open>METADATA:\<close> block gives the classes \<open>VM\<close> and \<open>IO\<close> a metric
  of the same name, and the class table after \<open>first_file_scan\<close> on it.
\<close>

definition dup_file :: "string list" where
  "dup_file =
     map line [''TIME_VALUES:'', ''2 10'', [], ''METADATA:'', ''VM V 1 cpu'', ''IO A 1 cpu'', [],
               ''DATE:'', ''1000'', [], ''VM:'', ''5'', ''7'', [],
               ''IO:'', ''sda 1'', ''sdb 2'', ''sda 3'', ''sdb 4'', []]"

definition dup_classtbl :: "Class list" where
  "dup_classtbl =
     [\<lparr>classname = ''VM'', classtype = CHR ''V'', startrow = 0,
       metrictbl =
         [\<lparr>metricname = ''cpu'', number_met = 0, max_met = 0, sum_met = 0,
           devicetbl =
             [\<lparr>devicename = ''None'', number_dev = 0, max_dev = 0, sum_dev = 0, scale = 0,
               valuetbl = [0, 0], fileptr = None\<rparr>]\<rparr>]\<rparr>,
      \<lparr>classname = ''IO'', classtype = CHR ''A'', startrow = 0,
       metrictbl =
         [\<lparr>metricname = ''cpu'', number_met = 0, max_met = 0, sum_met = 0,
           devicetbl =
             [\<lparr>devicename = ''sda'', number_dev = 0, max_dev = 0, sum_dev = 0, scale = 0,
               valuetbl = [0, 0], fileptr = None\<rparr>,
              \<lparr>devicename = ''sdb'', number_dev = 0, max_dev = 0, sum_dev = 0, scale = 0,
               valuetbl = [0, 0], fileptr = None\<rparr>]\<rparr>]\<rparr>]"

subsection \<open>Series and what the emitters write for them\<close>

text \<open>
  A series is a device of a metric. The emitters visit only the first device of
  a metric of a vector class and every device of a metric of an array class;
  \<open>all_series\<close> lists the series in the order of the loops, and a series is
  \<open>active\<close> when its scale is not zero.
\<close>

definition series_of :: "Class \<Rightarrow> Metric \<Rightarrow> Device list" where
  "series_of c m = (if classtype c = VECTORCLASS then take 1 (devicetbl m) else devicetbl m)"

definition all_series :: "Class list \<Rightarrow> (Class \<times> Metric \<times> Device) list" where
  "all_series tbl =
     concat (map (\<lambda>c. concat (map (\<lambda>m. map (\<lambda>d. (c, m, d)) (series_of c m)) (metrictbl c))) tbl)"

definition active :: "Class \<times> Metric \<times> Device \<Rightarrow> bool" where
  "active x \<longleftrightarrow> scale (snd (snd x)) \<noteq> 0"

text \<open>
  The entry of a series in the header line of the wide table, and its cell in
  the row \<open>rowidx\<close>: the delimiter, followed by the scaled value once the row
  has reached the start row of the class.
\<close>

definition header_entry :: "Param list \<Rightarrow> Class \<times> Metric \<times> Device \<Rightarrow> out_item list" where
  "header_entry ptbl x =
     (case x of (c, m, d) \<Rightarrow>
        if classtype c = VECTORCLASS then
          [Chr (the_character (param_value ptbl SINGFILEDELIMITERIDX)), Text (metricname m)]
        else
          [Chr (the_character (param_value ptbl SINGFILEDELIMITERIDX)), Text (metricname m),
           Text (the_string (param_value ptbl METDEVSEPARATORIDX)), Text (devicename d)])"

definition body_cell :: "pma \<Rightarrow> nat \<Rightarrow> Class \<times> Metric \<times> Device \<Rightarrow> out_item list" where
  "body_cell s rowidx x =
     (case x of (c, m, d) \<Rightarrow>
        if startrow c \<le> int rowidx then
          [Chr (the_character (param_value (paramtbl s) SINGFILEDELIMITERIDX)),
           Fixed1 (fullscale s / scale d * valuetbl d ! rowidx)]
        else [Chr (the_character (param_value (paramtbl s) SINGFILEDELIMITERIDX))])"

text \<open>
  \<open>map_series f\<close> applies \<open>f\<close> to every series of a class table in place. A narrow
  file is opened (\<open>narrow_open\<close>) with its header line; \<open>narrow_rows\<close> appends
  to an opened file one line for every row of \<open>rows\<close> that has reached the start
  row of the class.
\<close>

definition map_series :: "(Class \<Rightarrow> Metric \<Rightarrow> Device \<Rightarrow> Device) \<Rightarrow> Class list \<Rightarrow> Class list" where
  "map_series f tbl =
     map (\<lambda>c. c\<lparr>metrictbl :=
       map (\<lambda>m. m\<lparr>devicetbl :=
         (if classtype c = VECTORCLASS then
            (case devicetbl m of [] \<Rightarrow> [] | d # ds \<Rightarrow> f c m d # ds)
          else map (f c m) (devicetbl m))\<rparr>) (metrictbl c)\<rparr>) tbl"

definition series_name :: "Param list \<Rightarrow> Class \<Rightarrow> Metric \<Rightarrow> Device \<Rightarrow> string" where
  "series_name ptbl c m d =
     (if classtype c = VECTORCLASS then metricname m
      else metricname m @ the_string (param_value ptbl METDEVSEPARATORIDX) @ devicename d)"

definition narrow_open :: "Param list \<Rightarrow> Class \<Rightarrow> Metric \<Rightarrow> Device \<Rightarrow> Device" where
  "narrow_open ptbl c m d =
     (if scale d \<noteq> 0 then
        d\<lparr>fileptr := Some [Headerline (the_string (param_value ptbl MULTIFILEHEADERFMTIDX))
                             (series_name ptbl c m d) (scale d), Newline]\<rparr>
      else d)"

definition narrow_line :: "pma \<Rightarrow> int \<Rightarrow> Device \<Rightarrow> nat \<Rightarrow> out_item list" where
  "narrow_line s timestamp d rowidx =
     [Stamp (the_string (param_value (paramtbl s) MULTIFILEDATEFMTIDX))
        (timestamp + (int rowidx + 1) * interval s),
      Chr (the_character (param_value (paramtbl s) MULTIFILEDELIMITERIDX)),
      Fixed1 (fullscale s / scale d * valuetbl d ! rowidx),
      Newline]"

definition narrow_rows :: "pma \<Rightarrow> int \<Rightarrow> nat list \<Rightarrow> Class \<Rightarrow> Metric \<Rightarrow> Device \<Rightarrow> Device" where
  "narrow_rows s timestamp rows c m d =
     (if scale d \<noteq> 0 then
        d\<lparr>fileptr := map_option (\<lambda>written. written @
             concat (map (narrow_line s timestamp d)
               (filter (\<lambda>rowidx. startrow c \<le> int rowidx) rows))) (fileptr d)\<rparr>
      else d)"

text \<open>
  A run on \<open>example_file\<close> with a configuration file that scales \<open>cpu\<close> and the
  device \<open>sdb\<close> of \<open>tps\<close> and leaves \<open>sda\<close> at the default, and the state at its
  end.
\<close>

definition scaled_options :: options where
  "scaled_options =
     \<lparr>configfilename = Some (Some [line ''cpu 50'', line ''tps_sdb 10'']), singlefilename = True,
      multifiledirname = True\<rparr>"

definition scaled_state :: pma where
  "scaled_state = projr (pma_main atof_example scaled_options [File example_file])"

section \<open>Properties\<close>

subsection \<open>Rounding\<close>

text \<open>
  An integer of magnitude up to \<open>2 ^ 53\<close> is a \<open>double\<close>: rounding leaves it as it
  is. The second lemma is the equation by which \<open>round_double\<close> is evaluated.
\<close>

lemma halvings_le: "x < 2 ^ Suc k \<Longrightarrow> halvings n x \<le> k"
proof (induction n arbitrary: x k)
  case 0
  then show ?case by simp
next
  case (Suc n)
  show ?case
  proof (cases "x < 2")
    case True
    then show ?thesis by simp
  next
    case False
    with Suc.prems obtain k' where k: "k = Suc k'"
      by (cases k) auto
    with Suc.prems have "x / 2 < 2 ^ Suc k'" by simp
    from Suc.IH [OF this] False k show ?thesis by simp
  qed
qed

lemma halvings_ge: "1 \<le> x \<Longrightarrow> 2 ^ halvings n x \<le> x"
proof (induction n arbitrary: x)
  case 0
  then show ?case by simp
next
  case (Suc n)
  show ?case
  proof (cases "x < 2")
    case True
    with Suc.prems show ?thesis by simp
  next
    case False
    then have "1 \<le> x / 2" by simp
    from Suc.IH [OF this] False show ?thesis by simp
  qed
qed

lemma round_half_even_of_int: "round_half_even (of_int k) = k"
  by (simp add: round_half_even_def)

lemma round_double_exact:
  assumes "\<bar>n\<bar> \<le> 2 ^ 53"
  shows "round_double (of_int n) = Finite (of_int n)"
proof (cases "n = 0")
  case True
  then show ?thesis by (simp add: round_double_def)
next
  case False
  define x :: real where "x = of_int n"
  define h where "h = halvings 1024 \<bar>x\<bar>"
  have x1: "1 \<le> \<bar>x\<bar>" using False by (simp add: x_def flip: of_int_abs)
  have e: "exponent x = int h" using x1 by (simp add: exponent_def h_def)
  have xb: "\<bar>x\<bar> \<le> 2 ^ 53"
    using assms unfolding x_def by (metis of_int_abs of_int_le_iff of_int_numeral of_int_power)
  then have "\<bar>x\<bar> < 2 ^ Suc 53" by simp
  then have h53: "h \<le> 53" unfolding h_def by (rule halvings_le)
  have hx: "2 ^ h \<le> \<bar>x\<bar>" unfolding h_def by (rule halvings_ge [OF x1])
  have "\<exists>k. x / pow2 (int h - 52) = of_int k"
  proof (cases "h \<le> 52")
    case True
    then have "pow2 (int h - 52) = 1 / 2 ^ (52 - h)"
      by (cases "h = 52") (simp_all add: pow2_def nat_diff_distrib' flip: of_nat_diff)
    then have "x / pow2 (int h - 52) = of_int (n * 2 ^ (52 - h))"
      by (simp add: x_def)
    then show ?thesis by blast
  next
    case False
    with h53 have h: "h = 53" by simp
    with hx xb have "\<bar>x\<bar> = 2 ^ 53" by simp
    then have "\<bar>n\<bar> = 2 ^ 53"
      unfolding x_def by (metis of_int_abs of_int_eq_iff of_int_numeral of_int_power)
    then have "n = 2 ^ 53 \<or> n = - (2 ^ 53)" by linarith
    then have "x / pow2 (int h - 52) = of_int (n div 2)"
      by (auto simp: x_def h pow2_def)
    then show ?thesis by blast
  qed
  then obtain k where k: "x / pow2 (int h - 52) = of_int k" by blast
  have q: "pow2 (int h - 52) \<noteq> 0" by (simp add: pow2_def)
  from k q have "of_int k * pow2 (int h - 52) = x" by (simp add: field_simps)
  with k e h53 False show ?thesis
    by (simp add: round_double_def round_half_even_of_int flip: x_def)
qed

lemma round_double_code [code]:
  "round_double x =
     (if x = of_int \<lfloor>x\<rfloor> \<and> \<bar>\<lfloor>x\<rfloor>\<bar> \<le> 9007199254740992 then Finite x
      else if 1024 \<le> exponent x \<or>
         (exponent x = 1023 \<and>
          \<bar>round_half_even (x / pow2 (exponent x - 52))\<bar> = 2 ^ 53) then
        (if 0 < x then PInf else MInf)
      else
        Finite (of_int (round_half_even (x / pow2 (exponent x - 52))) *
                pow2 (exponent x - 52)))"
proof (cases "x = of_int \<lfloor>x\<rfloor> \<and> \<bar>\<lfloor>x\<rfloor>\<bar> \<le> 9007199254740992")
  case True
  then have "\<bar>\<lfloor>x\<rfloor>\<bar> \<le> 2 ^ 53" by simp
  from round_double_exact [OF this] True show ?thesis by simp
next
  case False
  then have nz: "x \<noteq> 0" by auto
  show ?thesis unfolding round_double_def by (simp only: False nz if_False)
qed

subsection \<open>The tokenizer and the comment character\<close>

text \<open>
  C5. The claim: a \<open>#\<close> outside quotes ends the tokenization of a line wherever it
  stands, so no argument contains or follows one. The code tests for the comment
  character only where an argument would start. On the line \<open>ab#cd ef\<close> the
  tokenizer returns the arguments \<open>ab#cd\<close> and \<open>ef\<close>: the first contains an
  unquoted \<open>#\<close> and the second follows it.
\<close>

theorem parse_input_line_hash_inside:
  "parse_input_line ''ab#cd ef\<newline>'' (MAXNUMMETRICS + 1) = Inr [''ab#cd'', ''ef'']"
  by (simp add: parse_input_line_def WHITESPACE_def COMMENTCHAR_def QUOTECHAR_def
      MAXNUMMETRICS_def)

text \<open>A \<open>#\<close> where an argument would start does end the line.\<close>

lemma parse_input_line_hash_at_start:
  "parse_input_line ''ab #cd ef\<newline>'' (MAXNUMMETRICS + 1) = Inr [''ab'']"
  by (simp add: parse_input_line_def WHITESPACE_def COMMENTCHAR_def QUOTECHAR_def
      MAXNUMMETRICS_def)

subsection \<open>Device registration\<close>




subsection \<open>An array stanza without a well-formed line\<close>

lemma read_array_loop_malformed:
  "list_all (malformed_array_line c) (takeWhile (\<lambda>l. \<not> blank_line l) ls) \<Longrightarrow>
   \<exists>r rest. read_array_loop atof c rowidx metricptr ls = Inr (c, r, metricptr, rest)"
proof (induction ls arbitrary: rowidx)
  case Nil
  then show ?case by simp
next
  case (Cons l ls)
  show ?case
  proof (cases "blank_line l")
    case True
    then show ?thesis by (simp add: blank_line_def)
  next
    case False
    with Cons.prems have m: "malformed_array_line c l"
      and rest: "list_all (malformed_array_line c) (takeWhile (\<lambda>l. \<not> blank_line l) ls)"
      by simp_all
    from m obtain argtbl where p: "parse_input_line l (MAXNUMMETRICS + 1) = Inr argtbl"
      and n: "length argtbl \<noteq> nummetrics c + 1" "length argtbl \<noteq> 0"
      by (auto simp: malformed_array_line_def split: sum.splits)
    from Cons.IH [OF rest, of "Suc rowidx"] p n show ?thesis by simp
  qed
qed

text \<open>
  C9. When every line of an array stanza before its end (the first blank or
  comment-only line, or the end of the file) is malformed, in particular when
  there is no such line at all, no iteration of the loop assigns \<open>metricptr\<close>,
  and the row-count check after the loop dereferences the null pointer.
\<close>

theorem read_array_stanza_null_metricptr:
  assumes "list_all (malformed_array_line c) (takeWhile (\<lambda>l. \<not> blank_line l) ls)"
  shows "read_array_stanza atof c ls = Inl Null_deref"
  using read_array_loop_malformed [OF assms, of atof 0 None]
  by (auto simp: read_array_stanza_def)

theorem read_array_stanza_null_metricptr_witness:
  "read_array_stanza atof_example io_class [''sda\<newline>'', ''# end\<newline>'', ''sda 1\<newline>'']
     = Inl Null_deref"
proof -
  have "list_all (malformed_array_line io_class)
     (takeWhile (\<lambda>l. \<not> blank_line l) [''sda\<newline>'', ''# end\<newline>'', ''sda 1\<newline>''])"
    by (simp add: malformed_array_line_def blank_line_def nummetrics_def io_class_def
        parse_input_line_def WHITESPACE_def COMMENTCHAR_def QUOTECHAR_def MAXNUMMETRICS_def)
  then show ?thesis
    by (rule read_array_stanza_null_metricptr)
qed

text \<open>
  The branch is reached from \<open>main\<close>: on a file whose \<open>IO:\<close> stanza is empty the
  device discovery finds no device and the first pass of \<open>read_inputfile\<close> ends in
  the null dereference.
\<close>

lemma null_metricptr_reached_from_main:
  "pma_main atof no_options [File empty_stanza_file] = Inl Null_deref"
  by code_simp

subsection \<open>The row mapping of an array stanza\<close>

lemma reaches_0: "reaches srow rowidx (m # ms) 0 \<longleftrightarrow> srow \<le> int (rowidx div numdevices m)"
  by (simp add: reaches_def)

lemma reaches_Suc:
  "reaches srow rowidx (m # ms) (Suc i) \<longleftrightarrow>
     srow \<le> int (rowidx div numdevices m) \<and> reaches srow rowidx ms i"
proof
  assume a: "reaches srow rowidx (m # ms) (Suc i)"
  have "srow \<le> int (rowidx div numdevices m)"
    using a [unfolded reaches_def, rule_format, of 0] by simp
  moreover have "reaches srow rowidx ms i"
    unfolding reaches_def
  proof (intro allI impI)
    fix j assume "j \<le> i"
    then show "srow \<le> int (rowidx div numdevices (ms ! j))"
      using a [unfolded reaches_def, rule_format, of "Suc j"] by simp
  qed
  ultimately show "srow \<le> int (rowidx div numdevices m) \<and> reaches srow rowidx ms i" by simp
next
  assume b: "srow \<le> int (rowidx div numdevices m) \<and> reaches srow rowidx ms i"
  show "reaches srow rowidx (m # ms) (Suc i)"
    unfolding reaches_def
  proof (intro allI impI)
    fix j assume "j \<le> Suc i"
    then show "srow \<le> int (rowidx div numdevices ((m # ms) ! j))"
      using b by (cases j) (auto simp: reaches_def)
  qed
qed

lemma reaches_not: "\<not> srow \<le> int (rowidx div numdevices m) \<Longrightarrow> \<not> reaches srow rowidx (m # ms) i"
  by (cases i) (simp_all add: reaches_0 reaches_Suc)

lemma array_row_result:
  assumes "length args = length ms"
    and "\<forall>m\<in>set ms. numdevices m \<noteq> 0 \<and>
           (\<forall>d\<in>set (devicetbl m). rowidx div numdevices m < length (valuetbl d))"
  shows "\<exists>ms' k. array_row atof srow rowidx args ms = Inr (ms', k) \<and>
     length ms' = length ms \<and>
     (\<forall>i<length ms.
        (reaches srow rowidx ms i \<longrightarrow>
           array_update atof rowidx (args ! i) (ms ! i) = Inr (ms' ! i)) \<and>
        (\<not> reaches srow rowidx ms i \<longrightarrow> ms' ! i = ms ! i))"
  using assms
proof (induction ms arbitrary: args)
  case Nil
  then show ?case by simp
next
  case (Cons m ms)
  from Cons.prems(1) obtain a as where args: "args = a # as" and len: "length as = length ms"
    by (cases args) auto
  from Cons.prems(2) have nd: "numdevices m \<noteq> 0"
    and room: "\<forall>d\<in>set (devicetbl m). rowidx div numdevices m < length (valuetbl d)"
    and rest: "\<forall>m\<in>set ms. numdevices m \<noteq> 0 \<and>
           (\<forall>d\<in>set (devicetbl m). rowidx div numdevices m < length (valuetbl d))"
    by simp_all
  have slot: "rowidx mod numdevices m < length (devicetbl m)"
    using nd by (simp add: numdevices_def)
  then have "rowidx div numdevices m <
      length (valuetbl (devicetbl m ! (rowidx mod numdevices m)))"
    using room by simp
  then obtain m' where upd: "array_update atof rowidx a m = Inr m'"
    by (simp add: array_update_def)
  show ?case
  proof (cases "srow \<le> int (rowidx div numdevices m)")
    case False
    then have "array_row atof srow rowidx args (m # ms) = Inr (m # ms, 1)"
      using nd by (simp add: args)
    then show ?thesis using reaches_not [OF False] by simp
  next
    case True
    from Cons.IH [OF len rest] obtain ms' k where
      r: "array_row atof srow rowidx as ms = Inr (ms', k)" and l: "length ms' = length ms"
      and c: "\<forall>i<length ms.
        (reaches srow rowidx ms i \<longrightarrow>
           array_update atof rowidx (as ! i) (ms ! i) = Inr (ms' ! i)) \<and>
        (\<not> reaches srow rowidx ms i \<longrightarrow> ms' ! i = ms ! i)"
      by blast
    have res: "array_row atof srow rowidx args (m # ms) = Inr (m' # ms', Suc k)"
      using nd True upd r by (simp add: args)
    have "(reaches srow rowidx (m # ms) i \<longrightarrow>
           array_update atof rowidx (args ! i) ((m # ms) ! i) = Inr ((m' # ms') ! i)) \<and>
        (\<not> reaches srow rowidx (m # ms) i \<longrightarrow> (m' # ms') ! i = (m # ms) ! i)"
      if "i < length (m # ms)" for i
    proof (cases i)
      case 0
      then show ?thesis using True upd by (simp add: args reaches_0)
    next
      case (Suc i')
      then have "i' < length ms" using that by simp
      with c show ?thesis
        using True by (simp add: Suc args reaches_Suc)
    qed
    with res l show ?thesis by simp
  qed
qed

text \<open>
  One well-formed line of an array stanza at the physical row index \<open>rowidx\<close>,
  with one value argument per metric. Where the row can be stored at all (every
  metric has a device and the buffers have a slot \<open>rowidx div numdevices\<close>), the
  loop over the metrics returns normally and, for every metric \<open>i\<close>: if all
  metrics up to \<open>i\<close> pass the test \<open>rowidx div numdevices \<ge> startrow\<close>, the value
  \<open>atof (args ! i)\<close> is stored at index \<open>rowidx div numdevices\<close> of the buffer of
  the device in slot \<open>rowidx mod numdevices\<close> of that metric's own device table,
  the other slots of that buffer and the other devices are as before; if some
  metric up to \<open>i\<close> fails the test, the loop has stopped there and metric \<open>i\<close> is
  unchanged.
\<close>

lemma array_row_store:
  assumes "length args = length ms"
    and "\<forall>m\<in>set ms. numdevices m \<noteq> 0 \<and>
           (\<forall>d\<in>set (devicetbl m). rowidx div numdevices m < length (valuetbl d))"
  shows "\<exists>ms' k. array_row atof srow rowidx args ms = Inr (ms', k) \<and>
     length ms' = length ms \<and>
     (\<forall>i<length ms.
        if \<forall>j\<le>i. srow \<le> int (rowidx div numdevices (ms ! j))
        then numdevices (ms' ! i) = numdevices (ms ! i) \<and>
             valuetbl (devicetbl (ms' ! i) ! (rowidx mod numdevices (ms ! i))) =
               (valuetbl (devicetbl (ms ! i) ! (rowidx mod numdevices (ms ! i))))
                 [rowidx div numdevices (ms ! i) := atof (args ! i)] \<and>
             (\<forall>k<numdevices (ms ! i). k \<noteq> rowidx mod numdevices (ms ! i) \<longrightarrow>
                devicetbl (ms' ! i) ! k = devicetbl (ms ! i) ! k)
        else ms' ! i = ms ! i)"
proof -
  from array_row_result [OF assms, of atof srow] obtain ms' k where
    r: "array_row atof srow rowidx args ms = Inr (ms', k)" and l: "length ms' = length ms"
    and c: "\<forall>i<length ms.
        (reaches srow rowidx ms i \<longrightarrow>
           array_update atof rowidx (args ! i) (ms ! i) = Inr (ms' ! i)) \<and>
        (\<not> reaches srow rowidx ms i \<longrightarrow> ms' ! i = ms ! i)"
    by blast
  have "if reaches srow rowidx ms i
        then numdevices (ms' ! i) = numdevices (ms ! i) \<and>
             valuetbl (devicetbl (ms' ! i) ! (rowidx mod numdevices (ms ! i))) =
               (valuetbl (devicetbl (ms ! i) ! (rowidx mod numdevices (ms ! i))))
                 [rowidx div numdevices (ms ! i) := atof (args ! i)] \<and>
             (\<forall>k<numdevices (ms ! i). k \<noteq> rowidx mod numdevices (ms ! i) \<longrightarrow>
                devicetbl (ms' ! i) ! k = devicetbl (ms ! i) ! k)
        else ms' ! i = ms ! i" if i: "i < length ms" for i
  proof (cases "reaches srow rowidx ms i")
    case False
    then show ?thesis using c i by simp
  next
    case True
    with c i have u: "array_update atof rowidx (args ! i) (ms ! i) = Inr (ms' ! i)" by simp
    have "numdevices (ms ! i) \<noteq> 0" using assms(2) i by simp
    then have slot: "rowidx mod numdevices (ms ! i) < length (devicetbl (ms ! i))"
      by (simp add: numdevices_def)
    have room: "rowidx div numdevices (ms ! i) <
        length (valuetbl (devicetbl (ms ! i) ! (rowidx mod numdevices (ms ! i))))"
      using u by (auto simp: array_update_def split: if_splits)
    have "ms' ! i = projr (array_update atof rowidx (args ! i) (ms ! i))"
      using u by simp
    then show ?thesis
      using True slot room by (simp add: array_update_def numdevices_def)
  qed
  with r l show ?thesis unfolding reaches_def by blast
qed

text \<open>
  The row index that the loop passes to \<open>array_row\<close> is the number of lines read
  since the stanza marker: every line that does not end the stanza, well formed
  or not, advances \<open>rowidx\<close> by one.
\<close>

lemma read_array_loop_row_index:
  assumes "\<forall>l\<in>set pre. \<not> blank_line l"
    and "read_array_loop atof c rowidx metricptr pre = Inr (c', r, metricptr', rest)"
  shows "r = rowidx + length pre \<and> rest = [] \<and>
     read_array_loop atof c rowidx metricptr (pre @ post) =
       read_array_loop atof c' (rowidx + length pre) metricptr' post"
  using assms
proof (induction pre arbitrary: c rowidx metricptr)
  case Nil
  then show ?case by simp
next
  case (Cons l pre)
  from Cons.prems(1) have nb: "parse_input_line l (MAXNUMMETRICS + 1) \<noteq> Inr []"
    and rest: "\<forall>l\<in>set pre. \<not> blank_line l"
    by (simp_all add: blank_line_def)
  from Cons.prems(2) obtain argtbl where p: "parse_input_line l (MAXNUMMETRICS + 1) = Inr argtbl"
    by (auto split: sum.splits)
  with nb have ne: "length argtbl \<noteq> 0" by simp
  show ?case
  proof (cases "length argtbl = nummetrics c + 1")
    case True
    with Cons.prems(2) p obtain ms k where
      row: "array_row atof (startrow c) rowidx (tl argtbl) (metrictbl c) = Inr (ms, k)"
      and loop: "read_array_loop atof (c\<lparr>metrictbl := ms\<rparr>) (Suc rowidx)
          (if k = 0 then metricptr else Some (k - 1)) pre = Inr (c', r, metricptr', rest)"
      by (auto split: sum.splits prod.splits)
    from Cons.IH [OF rest loop] show ?thesis
      using p True row by simp
  next
    case False
    with Cons.prems(2) p ne have
      loop: "read_array_loop atof c (Suc rowidx) metricptr pre = Inr (c', r, metricptr', rest)"
      by simp
    from Cons.IH [OF rest loop] show ?thesis
      using p False ne by simp
  qed
qed

subsection \<open>Every step of the program keeps an invariant of the metrics\<close>

lemma metric_invariantD:
  assumes "metric_invariant atof G J"
  shows "J (new_metric name)"
    and "J m \<Longrightarrow> J (m\<lparr>devicetbl := devicetbl m @ [new_device cnt name]\<rparr>)"
    and "J m \<Longrightarrow> list_all2 same_aggregates (devicetbl m) ds \<Longrightarrow> J (m\<lparr>devicetbl := ds\<rparr>)"
    and "G arg \<Longrightarrow> J m \<Longrightarrow> vector_update atof rowidx arg m = Inr m' \<Longrightarrow> J m'"
    and "G arg \<Longrightarrow> J m \<Longrightarrow> numdevices m \<noteq> 0 \<Longrightarrow>
      array_update atof rowidx arg m = Inr m' \<Longrightarrow> J m'"
  using assms unfolding metric_invariant_def by blast+

lemma same_aggregates_refl: "same_aggregates d d"
  by (simp add: same_aggregates_def)

lemma list_all2_same_aggregates_refl: "list_all2 same_aggregates ds ds"
  by (simp add: list_all2_refl same_aggregates_refl)

lemma mapE_list_all:
  assumes "mapE f xs = Inr ys" "list_all P xs"
    and "\<And>x y. P x \<Longrightarrow> f x = Inr y \<Longrightarrow> Q y"
  shows "list_all Q ys"
  using assms(1,2)
proof (induction xs arbitrary: ys)
  case Nil
  then show ?case by simp
next
  case (Cons x xs)
  then show ?case
    by (auto split: sum.splits intro: assms(3))
qed

lemma mapE_list_all2:
  assumes "mapE f xs = Inr ys"
    and "\<And>x y. f x = Inr y \<Longrightarrow> R x y"
  shows "list_all2 R xs ys"
  using assms(1)
proof (induction xs arbitrary: ys)
  case Nil
  then show ?case by simp
next
  case (Cons x xs)
  then show ?case
    by (auto split: sum.splits intro: assms(2))
qed

lemma metadata_loop_inv:
  assumes "metric_invariant atof G J"
  shows "all_metrics J tbl \<Longrightarrow> metadata_loop cnt tbl ls = Inr (tbl', rest) \<Longrightarrow>
     all_metrics J tbl'"
proof (induction ls arbitrary: tbl)
  case Nil
  then show ?case by simp
next
  case (Cons l ls)
  have new: "list_all J (map new_metric ns)" for ns
    using metric_invariantD(1) [OF assms] by (simp add: list_all_iff)
  from Cons.prems(2) obtain argtbl where p: "parse_input_line l MAXNUMMETADATA = Inr argtbl"
    by (auto split: sum.splits)
  show ?case
  proof (cases "NUMMETAITEMS + 1 \<le> length argtbl")
    case True
    let ?c = "\<lparr>classname = take MAXCLSNAMELEN (argtbl ! CLASSSTRIDX),
               classtype = first_char (argtbl ! CLASSTYPEIDX),
               startrow = atoi (argtbl ! STARTROWIDX) - 1,
               metrictbl = map new_metric (drop NUMMETAITEMS argtbl)\<rparr>"
    from Cons.prems(2) p True have
      loop: "metadata_loop cnt (tbl @ [?c]) ls = Inr (tbl', rest)"
      by (simp split: if_splits)
    have "all_metrics J (tbl @ [?c])"
      using Cons.prems(1) new by (simp add: all_metrics_def)
    from Cons.IH [OF this loop] show ?thesis .
  next
    case False
    with Cons.prems(2) p have "length argtbl = 0 \<and> tbl' = tbl \<or>
        metadata_loop cnt tbl ls = Inr (tbl', rest)"
      by (auto split: if_splits)
    then show ?thesis using Cons.IH [OF Cons.prems(1)] Cons.prems(1) by auto
  qed
qed

lemma add_device_inv:
  assumes "metric_invariant atof G J" "J m" "add_device cnt m name = Inr m'"
  shows "J m'"
  using assms(2,3) metric_invariantD(2) [OF assms(1)]
  by (auto simp: add_device_def split: if_splits)

lemma add_device_all_inv:
  assumes "metric_invariant atof G J"
  shows "list_all J ms \<Longrightarrow> add_device_all cnt name ms = Inr ms' \<Longrightarrow> list_all J ms'"
proof (induction ms arbitrary: ms')
  case Nil
  then show ?case by simp
next
  case (Cons m ms)
  from Cons.prems(2) obtain m1 ms1 where
    a: "add_device cnt m name = Inr m1"
    and b: "add_device_all cnt name ms = Inr ms1" and t: "ms' = m1 # ms1"
    by (auto split: sum.splits)
  from Cons.prems(1) have "J m" "list_all J ms" by simp_all
  with add_device_inv [OF assms _ a] Cons.IH [OF _ b] t show ?case by simp
qed

lemma array_devices_loop_inv:
  assumes "metric_invariant atof G J"
  shows "list_all J (metrictbl c) \<Longrightarrow> array_devices_loop cnt c ls = Inr (c', rest) \<Longrightarrow>
     list_all J (metrictbl c')"
proof (induction ls arbitrary: c)
  case Nil
  then show ?case by simp
next
  case (Cons l ls)
  from Cons.prems(2) obtain argtbl where p: "parse_input_line l (MAXNUMMETRICS + 1) = Inr argtbl"
    by (auto split: sum.splits)
  show ?case
  proof (cases "length argtbl = nummetrics c + 1")
    case True
    with Cons.prems(2) p obtain ms where
      a: "add_device_all cnt (argtbl ! 0) (metrictbl c) = Inr ms"
      and loop: "array_devices_loop cnt (c\<lparr>metrictbl := ms\<rparr>) ls = Inr (c', rest)"
      by (auto split: sum.splits)
    have "list_all J (metrictbl (c\<lparr>metrictbl := ms\<rparr>))"
      using add_device_all_inv [OF assms Cons.prems(1) a] by simp
    from Cons.IH [OF this loop] show ?thesis .
  next
    case False
    with Cons.prems p show ?thesis by (auto split: if_splits)
  qed
qed

lemma class_devices_inv:
  assumes "metric_invariant atof G J" "list_all J (metrictbl c)"
    "class_devices cnt c ls = Inr (c', rest)"
  shows "list_all J (metrictbl c')"
proof -
  from assms(3) obtain ls1 where
    r: "(if classtype c = VECTORCLASS then
            (case ls1 of
               [] \<Rightarrow> Inr (c, [])
             | l # ls2 \<Rightarrow>
                 (case parse_input_line l MAXNUMMETRICS of
                    Inl e \<Rightarrow> Inl e
                  | Inr argtbl \<Rightarrow>
                      if length argtbl = nummetrics c then
                        (case add_device_all cnt NODEVICENAME (metrictbl c) of
                           Inl e \<Rightarrow> Inl e
                         | Inr ms \<Rightarrow> Inr (c\<lparr>metrictbl := ms\<rparr>, ls2))
                      else Inl (Exit 1)))
          else array_devices_loop cnt c ls1) = Inr (c', rest)"
    by (auto simp: class_devices_def split: sum.splits)
  show ?thesis
  proof (cases "classtype c = VECTORCLASS")
    case False
    with r have "array_devices_loop cnt c ls1 = Inr (c', rest)" by simp
    from array_devices_loop_inv [OF assms(1,2) this] show ?thesis .
  next
    case True
    show ?thesis
    proof (cases ls1)
      case Nil
      with True r assms(2) show ?thesis by simp
    next
      case (Cons l ls2)
      with True r obtain ms where a: "add_device_all cnt NODEVICENAME (metrictbl c) = Inr ms"
        and c': "c' = c\<lparr>metrictbl := ms\<rparr>"
        by (auto split: sum.splits if_splits)
      from add_device_all_inv [OF assms(1,2) a] c' show ?thesis by simp
    qed
  qed
qed

lemma classes_loop_inv:
  assumes "metric_invariant atof G J"
  shows "all_metrics J tbl \<Longrightarrow> classes_loop cnt tbl ls = Inr (tbl', rest) \<Longrightarrow>
     all_metrics J tbl'"
proof (induction tbl arbitrary: ls tbl')
  case Nil
  then show ?case by (simp add: all_metrics_def)
next
  case (Cons c tbl)
  from Cons.prems(2) obtain c1 ls1 tbl1 where
    a: "class_devices cnt c ls = Inr (c1, ls1)"
    and b: "classes_loop cnt tbl ls1 = Inr (tbl1, rest)" and t: "tbl' = c1 # tbl1"
    by (auto split: sum.splits prod.splits)
  from Cons.prems(1) have "list_all J (metrictbl c)" "all_metrics J tbl"
    by (simp_all add: all_metrics_def)
  with class_devices_inv [OF assms _ a] Cons.IH [OF _ b] t show ?case
    by (simp add: all_metrics_def)
qed

lemma config_devices_same:
  "config_devices name prefix v ds = (ds', flag) \<Longrightarrow> list_all2 same_aggregates ds ds'"
proof (induction ds arbitrary: ds' flag)
  case Nil
  then show ?case by simp
next
  case (Cons d ds)
  have "same_aggregates d (d\<lparr>scale := v\<rparr>)"
    by (simp add: same_aggregates_def)
  with Cons show ?case
    by (auto simp: same_aggregates_refl list_all2_same_aggregates_refl
        split: if_splits prod.splits)
qed

lemma config_metric_inv:
  assumes "metric_invariant atof G J" "J m"
    "config_metric atof name arg sep ctype m = Inr (m', flag)"
  shows "J m'"
proof -
  have upd: "list_all2 same_aggregates (devicetbl m) ds \<Longrightarrow> J (m\<lparr>devicetbl := ds\<rparr>)" for ds
    using metric_invariantD(3) [OF assms(1,2)] .
  have sc: "same_aggregates d (d\<lparr>scale := v\<rparr>)" for d v
    by (simp add: same_aggregates_def)
  show ?thesis
  proof (cases "name = metricname m")
    case False
    show ?thesis
    proof (cases "ctype = VECTORCLASS")
      case True
      with False assms(2,3) show ?thesis by (simp add: config_metric_def)
    next
      case v: False
      obtain ds f where c:
        "config_devices name (metricname m @ sep) (atof arg) (devicetbl m) = (ds, f)"
        by (cases "config_devices name (metricname m @ sep) (atof arg) (devicetbl m)")
      with False v assms(3) have "m' = m\<lparr>devicetbl := ds\<rparr>"
        by (simp add: config_metric_def)
      with upd [OF config_devices_same [OF c]] show ?thesis by simp
    qed
  next
    case True
    show ?thesis
    proof (cases "ctype = VECTORCLASS")
      case v: True
      show ?thesis
      proof (cases "devicetbl m")
        case Nil
        with True v assms(3) show ?thesis by (simp add: config_metric_def)
      next
        case (Cons d ds)
        with True v assms(3) have m': "m' = m\<lparr>devicetbl := d\<lparr>scale := atof arg\<rparr> # ds\<rparr>"
          by (simp add: config_metric_def)
        have "list_all2 same_aggregates (devicetbl m) (d\<lparr>scale := atof arg\<rparr> # ds)"
          using sc by (simp add: Cons list_all2_same_aggregates_refl)
        from upd [OF this] m' show ?thesis by simp
      qed
    next
      case v: False
      with True assms(3) have
        m': "m' = m\<lparr>devicetbl := map (\<lambda>d. d\<lparr>scale := atof arg\<rparr>) (devicetbl m)\<rparr>"
        by (simp add: config_metric_def)
      have "list_all2 same_aggregates (devicetbl m)
          (map (\<lambda>d. d\<lparr>scale := atof arg\<rparr>) (devicetbl m))"
        using sc by (simp add: list_all2_conv_all_nth)
      from upd [OF this] m' show ?thesis by simp
    qed
  qed
qed

lemma config_metrics_inv:
  assumes "metric_invariant atof G J"
  shows "list_all J ms \<Longrightarrow> config_metrics atof name arg sep ctype ms = Inr (ms', flag) \<Longrightarrow>
     list_all J ms'"
proof (induction ms arbitrary: ms' flag)
  case Nil
  then show ?case by simp
next
  case (Cons m ms)
  from Cons.prems(2) obtain m1 f ms1 g where
    a: "config_metric atof name arg sep ctype m = Inr (m1, f)"
    and b: "config_metrics atof name arg sep ctype ms = Inr (ms1, g)"
    and c: "ms' = m1 # ms1"
    by (auto split: sum.splits prod.splits)
  from Cons.prems(1) have "J m" "list_all J ms" by simp_all
  with config_metric_inv [OF assms _ a] Cons.IH [OF _ b] c show ?case by simp
qed

lemma config_classes_inv:
  assumes "metric_invariant atof G J"
  shows "all_metrics J tbl \<Longrightarrow> config_classes atof name arg sep tbl = Inr (tbl', flag) \<Longrightarrow>
     all_metrics J tbl'"
proof (induction tbl arbitrary: tbl' flag)
  case Nil
  then show ?case by (simp add: all_metrics_def)
next
  case (Cons c tbl)
  from Cons.prems(2) obtain ms f tbl1 g where
    a: "config_metrics atof name arg sep (classtype c) (metrictbl c) = Inr (ms, f)"
    and b: "config_classes atof name arg sep tbl = Inr (tbl1, g)"
    and c: "tbl' = c\<lparr>metrictbl := ms\<rparr> # tbl1"
    by (auto split: sum.splits prod.splits)
  from Cons.prems(1) have "list_all J (metrictbl c)" "all_metrics J tbl"
    by (simp_all add: all_metrics_def)
  with config_metrics_inv [OF assms _ a] Cons.IH [OF _ b] c show ?case
    by (simp add: all_metrics_def)
qed

lemma config_loop_inv:
  assumes "metric_invariant atof G J"
  shows "all_metrics J tbl \<Longrightarrow> config_loop atof tbl ptbl ls = Inr (tbl', ptbl') \<Longrightarrow>
     all_metrics J tbl'"
proof (induction ls arbitrary: tbl ptbl)
  case Nil
  then show ?case by simp
next
  case (Cons l ls)
  from Cons.prems(2) obtain argtbl where p: "parse_input_line l 2 = Inr argtbl"
    by (auto split: sum.splits)
  show ?case
  proof (cases "length argtbl = 2")
    case True
    with Cons.prems(2) p obtain tbl1 f where
      a: "config_classes atof (argtbl ! 0) (argtbl ! 1)
            (the_string (param_value ptbl METDEVSEPARATORIDX)) tbl = Inr (tbl1, f)"
      and b: "config_loop atof tbl1 (config_params atof (argtbl ! 0) (argtbl ! 1) ptbl) ls
            = Inr (tbl', ptbl')"
      by (auto split: sum.splits prod.splits)
    from Cons.IH [OF config_classes_inv [OF assms Cons.prems(1) a] b] show ?thesis .
  next
    case False
    with Cons.prems(2) p have "config_loop atof tbl ptbl ls = Inr (tbl', ptbl')" by simp
    from Cons.IH [OF Cons.prems(1) this] show ?thesis .
  qed
qed

lemma open_series_same: "same_aggregates d (open_series ptbl name d)"
  by (simp add: open_series_def same_aggregates_def)

lemma prepare_metric_inv:
  assumes "metric_invariant atof G J" "J m" "prepare_metric ptbl c m = Inr m'"
  shows "J m'"
proof (cases "classtype c = VECTORCLASS")
  case True
  show ?thesis
  proof (cases "devicetbl m")
    case Nil
    with True assms(3) show ?thesis by (simp add: prepare_metric_def)
  next
    case (Cons d ds)
    with True assms(3) have m': "m' = m\<lparr>devicetbl := open_series ptbl (metricname m) d # ds\<rparr>"
      by (simp add: prepare_metric_def)
    have "list_all2 same_aggregates (devicetbl m) (open_series ptbl (metricname m) d # ds)"
      by (simp add: Cons open_series_same list_all2_same_aggregates_refl)
    from metric_invariantD(3) [OF assms(1,2) this] m' show ?thesis by simp
  qed
next
  case False
  with assms(3) have m': "m' = m\<lparr>devicetbl :=
       map (\<lambda>d. open_series ptbl
              (metricname m @ the_string (param_value ptbl METDEVSEPARATORIDX) @
               devicename d) d) (devicetbl m)\<rparr>"
    by (simp add: prepare_metric_def)
  have "list_all2 same_aggregates (devicetbl m)
       (map (\<lambda>d. open_series ptbl
              (metricname m @ the_string (param_value ptbl METDEVSEPARATORIDX) @
               devicename d) d) (devicetbl m))"
    by (simp add: list_all2_conv_all_nth open_series_same)
  from metric_invariantD(3) [OF assms(1,2) this] m' show ?thesis by simp
qed

lemma prepare_multi_output_files_inv:
  assumes "metric_invariant atof G J" "all_metrics J (classtbl s)"
    "prepare_multi_output_files s = Inr s'"
  shows "all_metrics J (classtbl s')"
proof -
  from assms(3) obtain tbl where
    m: "mapE (prepare_class (paramtbl s)) (classtbl s) = Inr tbl" and s': "classtbl s' = tbl"
    by (auto simp: prepare_multi_output_files_def split: sum.splits)
  have "list_all (\<lambda>c. list_all J (metrictbl c)) tbl"
  proof (rule mapE_list_all [OF m])
    show "list_all (\<lambda>c. list_all J (metrictbl c)) (classtbl s)"
      using assms(2) by (simp add: all_metrics_def)
  next
    fix c c' assume c: "list_all J (metrictbl c)" and p: "prepare_class (paramtbl s) c = Inr c'"
    from p obtain ms where
      ms: "mapE (prepare_metric (paramtbl s) c) (metrictbl c) = Inr ms" and c': "metrictbl c' = ms"
      by (auto simp: prepare_class_def split: sum.splits)
    have "list_all J ms"
      by (rule mapE_list_all [OF ms c]) (rule prepare_metric_inv [OF assms(1)])
    with c' show "list_all J (metrictbl c')" by simp
  qed
  with s' show ?thesis by (simp add: all_metrics_def)
qed

lemma prepare_single_output_file_classtbl:
  "prepare_single_output_file opts s = Inr s' \<Longrightarrow> classtbl s' = classtbl s"
  by (auto simp: prepare_single_output_file_def split: if_splits sum.splits)

lemma check_metric_names_same: "check_metric_names s = Inr s' \<Longrightarrow> s' = s"
  by (simp add: check_metric_names_def split: if_splits)

subsection \<open>The readers only consume lines\<close>

text \<open>
  The lines that a reader leaves unread are lines of its input, and a line of a
  data stanza whose tokens all satisfy \<open>G\<close> gives only such tokens to \<open>atof\<close>.
\<close>

lemma find_stanza_set: "set (snd (find_stanza stanza ls)) \<subseteq> set ls"
  by (induction ls) auto

lemma skip_to_stanza_set:
  "skip_to_stanza stanza flag ls = Inr rest \<Longrightarrow> set rest \<subseteq> set ls"
  using find_stanza_set [of stanza ls]
  by (auto simp: skip_to_stanza_def split: prod.splits if_splits)

lemma read_vector_loop_set:
  "read_vector_loop atof c rowidx ls = Inr (c', r, rest) \<Longrightarrow> set rest \<subseteq> set ls"
proof (induction ls arbitrary: c rowidx)
  case Nil
  then show ?case by simp
next
  case (Cons l ls)
  then show ?case
    by (fastforce split: sum.splits if_splits)
qed

lemma read_array_loop_set:
  "read_array_loop atof c rowidx mp ls = Inr (c', r, mp', rest) \<Longrightarrow> set rest \<subseteq> set ls"
proof (induction ls arbitrary: c rowidx mp)
  case Nil
  then show ?case by simp
next
  case (Cons l ls)
  then show ?case
    by (fastforce split: sum.splits if_splits prod.splits)
qed

lemma read_class_set:
  assumes "read_class atof c ls = Inr (c', rest)"
  shows "set rest \<subseteq> set ls"
proof -
  from assms obtain ls1 where
    s: "skip_to_stanza (classname c @ [STANZATERMCHAR]) False ls = Inr ls1"
    by (auto simp: read_class_def split: sum.splits)
  have "set rest \<subseteq> set ls1"
    using assms s read_vector_loop_set read_array_loop_set
    by (auto simp: read_class_def read_vector_stanza_def read_array_stanza_def
        split: sum.splits if_splits prod.splits option.splits)
  then show ?thesis
    using skip_to_stanza_set [OF s] by blast
qed

lemma read_classes_set:
  "read_classes atof cs ls = Inr (cs', rest) \<Longrightarrow> set rest \<subseteq> set ls"
proof (induction cs arbitrary: ls cs')
  case Nil
  then show ?case by simp
next
  case (Cons c cs)
  from Cons.prems obtain c1 ls1 cs1 where
    a: "read_class atof c ls = Inr (c1, ls1)"
    and b: "read_classes atof cs ls1 = Inr (cs1, rest)"
    by (auto split: sum.splits prod.splits)
  from Cons.IH [OF b] read_class_set [OF a] show ?case by blast
qed

lemma read_dataset_set:
  "read_dataset atof opts s timestamp l ls = Inr (s', t, rest) \<Longrightarrow> set rest \<subseteq> set ls"
  by (auto simp: read_dataset_def split: sum.splits prod.splits dest: read_classes_set)

lemma time_values_loop_set:
  "time_values_loop ci ls = Inr (ci', rest) \<Longrightarrow> set rest \<subseteq> set ls"
proof (induction ls arbitrary: ci)
  case Nil
  then show ?case by simp
next
  case (Cons l ls)
  then show ?case
    by (fastforce split: sum.splits if_splits)
qed

lemma metadata_loop_set:
  "metadata_loop cnt tbl ls = Inr (tbl', rest) \<Longrightarrow> set rest \<subseteq> set ls"
proof (induction ls arbitrary: tbl)
  case Nil
  then show ?case by simp
next
  case (Cons l ls)
  then show ?case
    by (fastforce split: sum.splits if_splits)
qed

lemma timestamp_loop_set:
  "timestamp_loop (t, n) ls = Inr (tc', rest) \<Longrightarrow> set rest \<subseteq> set ls"
proof (induction ls arbitrary: t n)
  case Nil
  then show ?case by simp
next
  case (Cons l ls)
  from Cons.prems have "rest = ls \<or> (\<exists>t1 n1. timestamp_loop (t1, n1) ls = Inr (tc', rest))"
    by (auto split: sum.splits if_splits)
  with Cons.IH show ?case by auto
qed

lemma array_devices_loop_set:
  "array_devices_loop cnt c ls = Inr (c', rest) \<Longrightarrow> set rest \<subseteq> set ls"
proof (induction ls arbitrary: c)
  case Nil
  then show ?case by simp
next
  case (Cons l ls)
  then show ?case
    by (fastforce split: sum.splits if_splits)
qed

lemma class_devices_set:
  assumes "class_devices cnt c ls = Inr (c', rest)"
  shows "set rest \<subseteq> set ls"
proof -
  from assms obtain ls1 where
    s: "skip_to_stanza (classname c @ [STANZATERMCHAR]) True ls = Inr ls1"
    by (auto simp: class_devices_def split: sum.splits)
  have "set rest \<subseteq> set ls1"
    using assms s array_devices_loop_set
    by (auto simp: class_devices_def split: sum.splits if_splits list.splits)
  then show ?thesis
    using skip_to_stanza_set [OF s] by blast
qed

lemma classes_loop_set:
  "classes_loop cnt cs ls = Inr (cs', rest) \<Longrightarrow> set rest \<subseteq> set ls"
proof (induction cs arbitrary: ls cs')
  case Nil
  then show ?case by simp
next
  case (Cons c cs)
  from Cons.prems obtain c1 ls1 cs1 where
    a: "class_devices cnt c ls = Inr (c1, ls1)"
    and b: "classes_loop cnt cs ls1 = Inr (cs1, rest)"
    by (auto split: sum.splits prod.splits)
  from Cons.IH [OF b] class_devices_set [OF a] show ?case by blast
qed

lemma read_configfile_unread:
  "read_configfile atof configfile s = Inr s' \<Longrightarrow>
     unread s' = unread s \<and> inputfile s' = inputfile s"
  by (auto simp: read_configfile_def split: option.splits sum.splits prod.splits)

lemma prepare_multi_output_files_unread:
  "prepare_multi_output_files s = Inr s' \<Longrightarrow> unread s' = unread s"
  by (auto simp: prepare_multi_output_files_def split: sum.splits)

lemma first_file_init_unread:
  assumes "first_file_init atof opts s = Inr s'"
  shows "set (unread s') \<subseteq> set (unread s) \<union> set (inputfile s)"
proof -
  let ?s0 = "initialize_parameters s"
  from assms obtain s1 s2 s3 s4 s5 s6 s7 where
    1: "initialize_time_values ?s0 = Inr s1"
    and 2: "initialize_metadata s1 = Inr s2"
    and 3: "initialize_timestamp s2 = Inr s3"
    and 4: "initialize_classes s3 = Inr s4"
    and 5: "(case configfilename opts of None \<Rightarrow> Inr s4
             | Some configfile \<Rightarrow> read_configfile atof configfile s4) = Inr s5"
    and 6: "check_metric_names s5 = Inr s6"
    and 7: "prepare_single_output_file opts s6 = Inr s7"
    and 8: "(if multifiledirname opts then prepare_multi_output_files s7 else Inr s7) = Inr s'"
    by (auto simp: first_file_init_def bind_result_def split: sum.splits)
  have u0: "unread ?s0 = unread s" "inputfile ?s0 = inputfile s"
    by (simp_all add: initialize_parameters_def)
  from 1 have u1: "set (unread s1) \<subseteq> set (unread ?s0)" "inputfile s1 = inputfile ?s0"
    by (auto simp: initialize_time_values_def split: sum.splits prod.splits
        dest!: skip_to_stanza_set time_values_loop_set)
  from 2 have u2: "set (unread s2) \<subseteq> set (unread s1)" "inputfile s2 = inputfile s1"
    by (auto simp: initialize_metadata_def split: sum.splits prod.splits
        dest!: skip_to_stanza_set metadata_loop_set)
  from 3 have u3: "set (unread s3) \<subseteq> set (unread s2)" "inputfile s3 = inputfile s2"
    by (auto simp: initialize_timestamp_def split: sum.splits prod.splits if_splits
        dest!: skip_to_stanza_set timestamp_loop_set)
  from 4 have u4: "set (unread s4) \<subseteq> set (unread s3) \<union> set (inputfile s3)"
    by (auto simp: initialize_classes_def split: sum.splits prod.splits if_splits
        dest!: classes_loop_set)
  from 5 have u5: "unread s5 = unread s4"
    by (auto split: option.splits dest: read_configfile_unread)
  from 6 have u6: "s6 = s5" by (rule check_metric_names_same)
  from 7 have u7: "unread s7 = unread s6"
    by (auto simp: prepare_single_output_file_def split: if_splits sum.splits)
  from 8 have u8: "unread s' = unread s7"
    by (auto split: if_splits dest: prepare_multi_output_files_unread)
  from u0 u1 u2 u3 u4 u5 u6 u7 u8 show ?thesis by auto
qed

lemma list_all_subset: "list_all Q ls \<Longrightarrow> set rest \<subseteq> set ls \<Longrightarrow> list_all Q rest"
  by (auto simp: list_all_iff)

subsection \<open>The readers keep an invariant of the metrics\<close>

lemma vector_row_inv:
  assumes "metric_invariant atof G J"
  shows "list_all J ms \<Longrightarrow> list_all G args \<Longrightarrow>
     vector_row atof rowidx args ms = Inr ms' \<Longrightarrow> list_all J ms'"
proof (induction ms arbitrary: args ms')
  case Nil
  then show ?case by simp
next
  case (Cons m ms)
  from Cons.prems(3) obtain a as m1 ms1 where args: "args = a # as"
    and u: "vector_update atof rowidx a m = Inr m1"
    and r: "vector_row atof rowidx as ms = Inr ms1" and ms': "ms' = m1 # ms1"
    by (auto split: list.splits sum.splits)
  from Cons.prems(2) args have g: "G a" "list_all G as" by simp_all
  from Cons.prems(1) have "J m" "list_all J ms" by simp_all
  with metric_invariantD(4) [OF assms g(1) _ u] Cons.IH [OF _ g(2) r] ms' show ?case by simp
qed

lemma read_vector_loop_inv:
  assumes "metric_invariant atof G J"
  shows "list_all J (metrictbl c) \<Longrightarrow> list_all (line_tokens_ok G) ls \<Longrightarrow>
     read_vector_loop atof c rowidx ls = Inr (c', r, rest) \<Longrightarrow> list_all J (metrictbl c')"
proof (induction ls arbitrary: c rowidx)
  case Nil
  then show ?case by simp
next
  case (Cons l ls)
  from Cons.prems(3) obtain argtbl where p: "parse_input_line l MAXNUMMETRICS = Inr argtbl"
    by (auto split: sum.splits)
  from Cons.prems(2) have okl: "line_tokens_ok G l" and ok: "list_all (line_tokens_ok G) ls"
    by simp_all
  from okl p have g: "list_all G argtbl"
    by (simp add: line_tokens_ok_def)
  show ?case
  proof (cases "length argtbl = nummetrics c \<and> startrow c \<le> int rowidx")
    case True
    with Cons.prems(3) p obtain ms where
      row: "vector_row atof rowidx argtbl (metrictbl c) = Inr ms"
      and loop: "read_vector_loop atof (c\<lparr>metrictbl := ms\<rparr>) (Suc rowidx) ls = Inr (c', r, rest)"
      by (auto split: sum.splits)
    have "list_all J (metrictbl (c\<lparr>metrictbl := ms\<rparr>))"
      using vector_row_inv [OF assms Cons.prems(1) g row] by simp
    from Cons.IH [OF this ok loop] show ?thesis .
  next
    case False
    with Cons.prems(3) p have "c' = c \<or>
        read_vector_loop atof c (Suc rowidx) ls = Inr (c', r, rest)"
      by (auto split: if_splits)
    then show ?thesis using Cons.IH [OF Cons.prems(1) ok] Cons.prems(1) by blast
  qed
qed

lemma array_row_inv:
  assumes "metric_invariant atof G J"
  shows "list_all J ms \<Longrightarrow> list_all G args \<Longrightarrow>
     array_row atof srow rowidx args ms = Inr (ms', k) \<Longrightarrow> list_all J ms'"
proof (induction ms arbitrary: args ms' k)
  case Nil
  then show ?case by simp
next
  case (Cons m ms)
  from Cons.prems(3) have nd: "numdevices m \<noteq> 0"
    by (auto split: if_splits)
  show ?case
  proof (cases "srow \<le> int (rowidx div numdevices m)")
    case False
    with Cons.prems nd show ?thesis by auto
  next
    case True
    with Cons.prems(3) nd obtain a as m1 ms1 k1 where args: "args = a # as"
      and u: "array_update atof rowidx a m = Inr m1"
      and r: "array_row atof srow rowidx as ms = Inr (ms1, k1)" and ms': "ms' = m1 # ms1"
      by (auto split: list.splits sum.splits prod.splits)
    from Cons.prems(2) args have g: "G a" "list_all G as" by simp_all
    from Cons.prems(1) have "J m" "list_all J ms" by simp_all
    with metric_invariantD(5) [OF assms g(1) _ nd u] Cons.IH [OF _ g(2) r] ms'
    show ?thesis by simp
  qed
qed

lemma read_array_loop_inv:
  assumes "metric_invariant atof G J"
  shows "list_all J (metrictbl c) \<Longrightarrow> list_all (line_tokens_ok G) ls \<Longrightarrow>
     read_array_loop atof c rowidx mp ls = Inr (c', r, mp', rest) \<Longrightarrow>
     list_all J (metrictbl c')"
proof (induction ls arbitrary: c rowidx mp)
  case Nil
  then show ?case by simp
next
  case (Cons l ls)
  from Cons.prems(3) obtain argtbl where p: "parse_input_line l (MAXNUMMETRICS + 1) = Inr argtbl"
    by (auto split: sum.splits)
  from Cons.prems(2) have okl: "line_tokens_ok G l" and ok: "list_all (line_tokens_ok G) ls"
    by simp_all
  from okl p have g: "list_all G (tl argtbl)"
    by (simp add: line_tokens_ok_def)
  show ?case
  proof (cases "length argtbl = nummetrics c + 1")
    case True
    with Cons.prems(3) p obtain ms k where
      row: "array_row atof (startrow c) rowidx (tl argtbl) (metrictbl c) = Inr (ms, k)"
      and loop: "read_array_loop atof (c\<lparr>metrictbl := ms\<rparr>) (Suc rowidx)
          (if k = 0 then mp else Some (k - 1)) ls = Inr (c', r, mp', rest)"
      by (auto split: sum.splits prod.splits)
    have "list_all J (metrictbl (c\<lparr>metrictbl := ms\<rparr>))"
      using array_row_inv [OF assms Cons.prems(1) g row] by simp
    from Cons.IH [OF this ok loop] show ?thesis .
  next
    case False
    with Cons.prems(3) p have "c' = c \<or>
        read_array_loop atof c (Suc rowidx) mp ls = Inr (c', r, mp', rest)"
      by (auto split: if_splits)
    then show ?thesis using Cons.IH [OF Cons.prems(1) ok] Cons.prems(1) by blast
  qed
qed

lemma read_class_inv:
  assumes "metric_invariant atof G J" "list_all J (metrictbl c)"
    "list_all (line_tokens_ok G) ls"
    "read_class atof c ls = Inr (c', rest)"
  shows "list_all J (metrictbl c')"
proof -
  from assms(4) obtain ls1 where
    sk: "skip_to_stanza (classname c @ [STANZATERMCHAR]) False ls = Inr ls1"
    and r: "(if classtype c = VECTORCLASS then read_vector_stanza atof c ls1
         else read_array_stanza atof c ls1) = Inr (c', rest)"
    by (auto simp: read_class_def split: sum.splits)
  have ok: "list_all (line_tokens_ok G) ls1"
    by (rule list_all_subset [OF assms(3) skip_to_stanza_set [OF sk]])
  show ?thesis
  proof (cases "classtype c = VECTORCLASS")
    case True
    with r obtain n where "read_vector_loop atof c 0 ls1 = Inr (c', n, rest)"
      by (auto simp: read_vector_stanza_def split: sum.splits)
    from read_vector_loop_inv [OF assms(1,2) ok this] show ?thesis .
  next
    case False
    with r obtain n mp where "read_array_loop atof c 0 None ls1 = Inr (c', n, mp, rest)"
      by (auto simp: read_array_stanza_def split: sum.splits option.splits)
    from read_array_loop_inv [OF assms(1,2) ok this] show ?thesis .
  qed
qed

lemma read_classes_inv:
  assumes "metric_invariant atof G J"
  shows "all_metrics J tbl \<Longrightarrow> list_all (line_tokens_ok G) ls \<Longrightarrow>
     read_classes atof tbl ls = Inr (tbl', rest) \<Longrightarrow> all_metrics J tbl'"
proof (induction tbl arbitrary: ls tbl')
  case Nil
  then show ?case by (simp add: all_metrics_def)
next
  case (Cons c tbl)
  from Cons.prems(3) obtain c1 ls1 tbl1 where
    a: "read_class atof c ls = Inr (c1, ls1)"
    and b: "read_classes atof tbl ls1 = Inr (tbl1, rest)" and t: "tbl' = c1 # tbl1"
    by (auto split: sum.splits prod.splits)
  have ok: "list_all (line_tokens_ok G) ls1"
    by (rule list_all_subset [OF Cons.prems(2) read_class_set [OF a]])
  from Cons.prems(1) have "list_all J (metrictbl c)" "all_metrics J tbl"
    by (simp_all add: all_metrics_def)
  with read_class_inv [OF assms _ Cons.prems(2) a] Cons.IH [OF _ ok b] t show ?case
    by (simp add: all_metrics_def)
qed

lemma multi_device_same:
  "multi_device s c timestamp rowidx d = Inr d' \<Longrightarrow> same_aggregates d d'"
  by (auto simp: multi_device_def same_aggregates_def split: if_splits option.splits)

lemma multi_metric_inv:
  assumes "metric_invariant atof G J" "J m" "multi_metric s c timestamp rowidx m = Inr m'"
  shows "J m'"
proof (cases "classtype c = VECTORCLASS")
  case True
  with assms(3) obtain d ds d' where dt: "devicetbl m = d # ds"
    and u: "multi_device s c timestamp rowidx d = Inr d'"
    and m': "m' = m\<lparr>devicetbl := d' # ds\<rparr>"
    by (auto simp: multi_metric_def split: list.splits sum.splits)
  have "list_all2 same_aggregates (devicetbl m) (d' # ds)"
    using multi_device_same [OF u] by (simp add: dt list_all2_same_aggregates_refl)
  from metric_invariantD(3) [OF assms(1,2) this] m' show ?thesis by simp
next
  case False
  with assms(3) obtain ds where
    u: "mapE (multi_device s c timestamp rowidx) (devicetbl m) = Inr ds"
    and m': "m' = m\<lparr>devicetbl := ds\<rparr>"
    by (auto simp: multi_metric_def split: sum.splits)
  have "list_all2 same_aggregates (devicetbl m) ds"
    by (rule mapE_list_all2 [OF u]) (rule multi_device_same)
  from metric_invariantD(3) [OF assms(1,2) this] m' show ?thesis by simp
qed

lemma multi_class_inv:
  assumes "metric_invariant atof G J" "list_all J (metrictbl c)"
    "multi_class s timestamp rowidx c = Inr c'"
  shows "list_all J (metrictbl c')"
proof -
  from assms(3) obtain ms where
    ms: "mapE (multi_metric s c timestamp rowidx) (metrictbl c) = Inr ms"
    and c': "metrictbl c' = ms"
    by (auto simp: multi_class_def split: sum.splits)
  have "list_all J ms"
    by (rule mapE_list_all [OF ms assms(2)]) (rule multi_metric_inv [OF assms(1)])
  with c' show ?thesis by simp
qed

lemma multi_rows_inv:
  assumes "metric_invariant atof G J"
  shows "all_metrics J tbl \<Longrightarrow> multi_rows s timestamp rows tbl = Inr tbl' \<Longrightarrow>
     all_metrics J tbl'"
proof (induction rows arbitrary: tbl)
  case Nil
  then show ?case by simp
next
  case (Cons rowidx rows)
  from Cons.prems(2) obtain tbl1 where
    a: "mapE (multi_class s timestamp rowidx) tbl = Inr tbl1"
    and b: "multi_rows s timestamp rows tbl1 = Inr tbl'"
    by (auto split: sum.splits)
  have "list_all (\<lambda>c. list_all J (metrictbl c)) tbl1"
    by (rule mapE_list_all [OF a Cons.prems(1) [unfolded all_metrics_def]])
       (rule multi_class_inv [OF assms])
  then have "all_metrics J tbl1" by (simp add: all_metrics_def)
  from Cons.IH [OF this b] show ?case .
qed

lemma read_dataset_inv:
  assumes "metric_invariant atof G J" "all_metrics J (classtbl s)"
    "list_all (line_tokens_ok G) ls"
    "read_dataset atof opts s timestamp l ls = Inr (s', t, rest)"
  shows "all_metrics J (classtbl s')"
proof -
  from assms(4) obtain tbl rest1 ts s1 where
    r: "read_classes atof (classtbl s) ls = Inr (tbl, rest1)"
    and m: "(if multifiledirname opts then output_multifile_bodies_data (s\<lparr>classtbl := tbl\<rparr>) ts
             else Inr (s\<lparr>classtbl := tbl\<rparr>)) = Inr s1"
    and s': "classtbl s' = classtbl s1"
    by (auto simp: read_dataset_def split: sum.splits prod.splits)
  have t: "all_metrics J tbl"
    by (rule read_classes_inv [OF assms(1,2,3) r])
  have "all_metrics J (classtbl s1)"
  proof (cases "multifiledirname opts")
    case False
    with m t show ?thesis by auto
  next
    case True
    with m obtain tbl1 where
      a: "multi_rows (s\<lparr>classtbl := tbl\<rparr>) ts [0..<nat (count s)] tbl = Inr tbl1"
      and b: "classtbl s1 = tbl1"
      by (auto simp: output_multifile_bodies_data_def split: sum.splits)
    from multi_rows_inv [OF assms(1) t a] b show ?thesis by simp
  qed
  with s' show ?thesis by simp
qed

lemma read_inputfile_loop_inv:
  "metric_invariant atof G J \<Longrightarrow> all_metrics J (classtbl s) \<Longrightarrow>
     list_all (line_tokens_ok G) ls \<Longrightarrow>
     read_inputfile_loop atof opts s timestamp ls = Inr (s', t) \<Longrightarrow>
     all_metrics J (classtbl s')"
proof (induction atof opts s timestamp ls rule: read_inputfile_loop.induct)
  case (1 atof opts s timestamp ls)
  have e: "(case skip_to_stanza DATESTR False ls of
        Inl e \<Rightarrow> Inl e
      | Inr [] \<Rightarrow> Inr (s\<lparr>unread := []\<rparr>, timestamp)
      | Inr (l # ls1) \<Rightarrow>
          (case read_dataset atof opts s timestamp l ls1 of
             Inl e \<Rightarrow> Inl e
           | Inr (s', timestamp', rest) \<Rightarrow> read_inputfile_loop atof opts s' timestamp' rest))
       = Inr (s', t)"
    using "1.prems"(4) by (subst (asm) read_inputfile_loop.simps)
  then obtain ls0 where sk: "skip_to_stanza DATESTR False ls = Inr ls0"
    by (auto split: sum.splits)
  show ?case
  proof (cases ls0)
    case Nil
    with sk e have "s' = s\<lparr>unread := []\<rparr>" by simp
    with "1.prems"(2) show ?thesis by simp
  next
    case (Cons l ls1)
    with sk e obtain s1 t1 rest where
      d: "read_dataset atof opts s timestamp l ls1 = Inr (s1, t1, rest)"
      and loop: "read_inputfile_loop atof opts s1 t1 rest = Inr (s', t)"
      by (auto split: sum.splits prod.splits)
    have "set ls1 \<subseteq> set ls" using skip_to_stanza_set [OF sk] Cons by auto
    then have ok1: "list_all (line_tokens_ok G) ls1"
      by (rule list_all_subset [OF "1.prems"(3)])
    have ok: "list_all (line_tokens_ok G) rest"
      by (rule list_all_subset [OF ok1 read_dataset_set [OF d]])
    have "all_metrics J (classtbl s1)"
      by (rule read_dataset_inv [OF "1.prems"(1,2) ok1 d])
    from "1.IH" [OF sk Cons d refl refl "1.prems"(1) this ok loop] show ?thesis .
  qed
qed

lemma first_file_init_inv:
  assumes "metric_invariant atof G J" "all_metrics J (classtbl s)"
    "first_file_init atof opts s = Inr s'"
  shows "all_metrics J (classtbl s')"
proof -
  let ?s0 = "initialize_parameters s"
  have c0: "classtbl ?s0 = classtbl s" by (simp add: initialize_parameters_def)
  from assms(3) obtain s1 s2 s3 s4 s5 s6 s7 where
    1: "initialize_time_values ?s0 = Inr s1"
    and 2: "initialize_metadata s1 = Inr s2"
    and 3: "initialize_timestamp s2 = Inr s3"
    and 4: "initialize_classes s3 = Inr s4"
    and 5: "(case configfilename opts of None \<Rightarrow> Inr s4
             | Some configfile \<Rightarrow> read_configfile atof configfile s4) = Inr s5"
    and 6: "check_metric_names s5 = Inr s6"
    and 7: "prepare_single_output_file opts s6 = Inr s7"
    and 8: "(if multifiledirname opts then prepare_multi_output_files s7 else Inr s7) = Inr s'"
    by (auto simp: first_file_init_def bind_result_def split: sum.splits)
  from 1 have "classtbl s1 = classtbl ?s0"
    by (auto simp: initialize_time_values_def split: sum.splits prod.splits)
  with assms(2) c0 have i1: "all_metrics J (classtbl s1)" by simp
  from 2 obtain ls tbl rest where "metadata_loop (count s1) (classtbl s1) ls = Inr (tbl, rest)"
    and "classtbl s2 = tbl"
    by (auto simp: initialize_metadata_def split: sum.splits prod.splits)
  with metadata_loop_inv [OF assms(1) i1] have i2: "all_metrics J (classtbl s2)" by simp
  from 3 have "classtbl s3 = classtbl s2"
    by (auto simp: initialize_timestamp_def split: sum.splits prod.splits if_splits)
  with i2 have i3: "all_metrics J (classtbl s3)" by simp
  from 4 obtain tbl rest where "classes_loop (count s3) (classtbl s3) (unread s3) = Inr (tbl, rest)"
    and "classtbl s4 = tbl"
    by (auto simp: initialize_classes_def split: sum.splits prod.splits)
  with classes_loop_inv [OF assms(1) i3] have i4: "all_metrics J (classtbl s4)" by simp
  have i5: "all_metrics J (classtbl s5)"
  proof (cases "configfilename opts")
    case None
    with 5 i4 show ?thesis by simp
  next
    case (Some configfile)
    with 5 obtain ls tbl ptbl where
      "config_loop atof (classtbl s4) (paramtbl s4) ls = Inr (tbl, ptbl)" and "classtbl s5 = tbl"
      by (auto simp: read_configfile_def split: option.splits sum.splits prod.splits)
    with config_loop_inv [OF assms(1) i4] show ?thesis by simp
  qed
  have "classtbl s7 = classtbl s5"
    using check_metric_names_same [OF 6] prepare_single_output_file_classtbl [OF 7] by simp
  with i5 have i7: "all_metrics J (classtbl s7)" by simp
  show ?thesis
  proof (cases "multifiledirname opts")
    case False
    with 8 i7 show ?thesis by simp
  next
    case True
    with 8 have "prepare_multi_output_files s7 = Inr s'" by simp
    from prepare_multi_output_files_inv [OF assms(1) i7 this] show ?thesis .
  qed
qed

lemma open_input_classtbl: "classtbl (open_input inp s) = classtbl s"
  by (cases inp) (simp_all add: open_input_def)

lemma open_input_unread:
  "inp \<noteq> Unopenable \<Longrightarrow> input_tokens_ok G inp \<Longrightarrow>
     list_all (line_tokens_ok G) (unread (open_input inp s)) \<and>
     list_all (line_tokens_ok G) (inputfile (open_input inp s))"
  by (cases inp) (simp_all add: open_input_def input_tokens_ok_def)

lemma main_loop_inv:
  assumes "metric_invariant atof G J"
  shows "all_metrics J (classtbl s) \<Longrightarrow> list_all (input_tokens_ok G) inputs \<Longrightarrow>
     main_loop atof opts firstfileflag s lasttimestamp inputs = Inr (s', t) \<Longrightarrow>
     all_metrics J (classtbl s')"
proof (induction inputs arbitrary: firstfileflag s lasttimestamp)
  case Nil
  then show ?case by simp
next
  case (Cons inp inps)
  from Cons.prems(2) have oki: "input_tokens_ok G inp"
    and oks: "list_all (input_tokens_ok G) inps"
    by simp_all
  show ?case
  proof (cases "inp = Unopenable")
    case True
    with Cons.prems(3) have "main_loop atof opts firstfileflag s lasttimestamp inps = Inr (s', t)"
      by simp
    from Cons.IH [OF Cons.prems(1) oks this] show ?thesis .
  next
    case False
    with Cons.prems(3) obtain s1 s2 t2 where
      a: "(if firstfileflag then first_file_init atof opts (open_input inp s)
           else Inr (open_input inp s)) = Inr s1"
      and b: "read_inputfile atof opts s1 = Inr (s2, t2)"
      and c: "main_loop atof opts False s2 t2 inps = Inr (s', t)"
      by (auto split: sum.splits prod.splits)
    have o: "all_metrics J (classtbl (open_input inp s))"
      using Cons.prems(1) by (simp add: open_input_classtbl)
    note ou = open_input_unread [OF False oki, of s]
    have "all_metrics J (classtbl s1) \<and> list_all (line_tokens_ok G) (unread s1)"
    proof (cases firstfileflag)
      case True
      with a have f: "first_file_init atof opts (open_input inp s) = Inr s1" by simp
      have "list_all (line_tokens_ok G) (unread s1)"
        using first_file_init_unread [OF f] ou by (auto simp: list_all_iff)
      with first_file_init_inv [OF assms o f] show ?thesis by simp
    next
      case False
      with a o ou show ?thesis by auto
    qed
    then have i1: "all_metrics J (classtbl s1)"
      and u1: "list_all (line_tokens_ok G) (unread s1)"
      by simp_all
    from read_inputfile_loop_inv [OF assms i1 u1 b [unfolded read_inputfile_def]]
    have "all_metrics J (classtbl s2)" .
    from Cons.IH [OF this oks c] show ?thesis .
  qed
qed

lemma pma_main_inv:
  assumes "metric_invariant atof G J" "list_all (input_tokens_ok G) inputs"
    "pma_main atof opts inputs = Inr s"
  shows "all_metrics J (classtbl s)"
proof -
  from assms(3) obtain t where
    m: "main_loop atof opts True initial_state 0 inputs = Inr (s, t)"
    by (auto simp: pma_main_def split: if_splits sum.splits prod.splits)
  have "all_metrics J (classtbl initial_state)"
    by (simp add: initial_state_def all_metrics_def)
  from main_loop_inv [OF assms(1) this assms(2) m] show ?thesis .
qed

subsection \<open>The time stamp of a data set\<close>

































subsection \<open>Duplicate metric names\<close>

lemma check_metric_names_eq:
  "check_metric_names s =
     (if duplicate_names (metric_names (classtbl s)) then Inl (Exit 1) else Inr s)"
proof -
  have "list_ex (\<lambda>class1idx.
           list_ex (\<lambda>metric1idx.
             list_ex (\<lambda>class2idx.
               list_ex (\<lambda>metric2idx.
                   (class1idx \<noteq> class2idx \<or> metric1idx \<noteq> metric2idx) \<and>
                   metricname (metrictbl (classtbl s ! class1idx) ! metric1idx) =
                   metricname (metrictbl (classtbl s ! class2idx) ! metric2idx))
                 [0..<nummetrics (classtbl s ! class2idx)])
               [0..<numclasses s])
             [0..<nummetrics (classtbl s ! class1idx)])
           [0..<numclasses s] = duplicate_names (metric_names (classtbl s))"
    unfolding duplicate_names_def metric_names_def list_ex_iff numclasses_def nummetrics_def
    by (auto simp: )
  then show ?thesis by (simp add: check_metric_names_def)
qed

lemma first_file_init_scan:
  "first_file_init atof opts s =
     bind_result (first_file_scan s) (\<lambda>s4.
     bind_result (case configfilename opts of
                    None \<Rightarrow> Inr s4
                  | Some configfile \<Rightarrow> read_configfile atof configfile s4) (\<lambda>s5.
     bind_result (check_metric_names s5) (\<lambda>s6.
     bind_result (prepare_single_output_file opts s6) (\<lambda>s7.
       (if multifiledirname opts then prepare_multi_output_files s7 else Inr s7)))))"
  by (simp add: first_file_init_def first_file_scan_def bind_result_def split: sum.splits)

lemma add_device_metricname: "add_device cnt m name = Inr m' \<Longrightarrow> metricname m' = metricname m"
  by (auto simp: add_device_def split: if_splits)

lemma add_device_all_names:
  "add_device_all cnt name ms = Inr ms' \<Longrightarrow> map metricname ms' = map metricname ms"
proof (induction ms arbitrary: ms')
  case Nil
  then show ?case by simp
next
  case (Cons m ms)
  from Cons.prems obtain m1 ms1 where
    a: "add_device cnt m name = Inr m1"
    and b: "add_device_all cnt name ms = Inr ms1" and t: "ms' = m1 # ms1"
    by (auto split: sum.splits)
  from add_device_metricname [OF a] Cons.IH [OF b] t show ?case by simp
qed

lemma array_devices_loop_names:
  "array_devices_loop cnt c ls = Inr (c', rest) \<Longrightarrow>
     map metricname (metrictbl c') = map metricname (metrictbl c)"
proof (induction ls arbitrary: c)
  case Nil
  then show ?case by simp
next
  case (Cons l ls)
  from Cons.prems obtain argtbl where p: "parse_input_line l (MAXNUMMETRICS + 1) = Inr argtbl"
    by (auto split: sum.splits)
  show ?case
  proof (cases "length argtbl = nummetrics c + 1")
    case True
    with Cons.prems p obtain ms where
      a: "add_device_all cnt (argtbl ! 0) (metrictbl c) = Inr ms"
      and loop: "array_devices_loop cnt (c\<lparr>metrictbl := ms\<rparr>) ls = Inr (c', rest)"
      by (auto split: sum.splits)
    from Cons.IH [OF loop] add_device_all_names [OF a] show ?thesis by simp
  next
    case False
    with Cons.prems p show ?thesis by (auto split: if_splits)
  qed
qed

lemma class_devices_names:
  assumes "class_devices cnt c ls = Inr (c', rest)"
  shows "map metricname (metrictbl c') = map metricname (metrictbl c)"
proof -
  from assms obtain ls1 where
    r: "(if classtype c = VECTORCLASS then
            (case ls1 of
               [] \<Rightarrow> Inr (c, [])
             | l # ls2 \<Rightarrow>
                 (case parse_input_line l MAXNUMMETRICS of
                    Inl e \<Rightarrow> Inl e
                  | Inr argtbl \<Rightarrow>
                      if length argtbl = nummetrics c then
                        (case add_device_all cnt NODEVICENAME (metrictbl c) of
                           Inl e \<Rightarrow> Inl e
                         | Inr ms \<Rightarrow> Inr (c\<lparr>metrictbl := ms\<rparr>, ls2))
                      else Inl (Exit 1)))
          else array_devices_loop cnt c ls1) = Inr (c', rest)"
    by (auto simp: class_devices_def split: sum.splits)
  show ?thesis
  proof (cases "classtype c = VECTORCLASS")
    case False
    with r have "array_devices_loop cnt c ls1 = Inr (c', rest)" by simp
    from array_devices_loop_names [OF this] show ?thesis .
  next
    case True
    show ?thesis
    proof (cases ls1)
      case Nil
      with True r show ?thesis by simp
    next
      case (Cons l ls2)
      with True r obtain ms where a: "add_device_all cnt NODEVICENAME (metrictbl c) = Inr ms"
        and c': "c' = c\<lparr>metrictbl := ms\<rparr>"
        by (auto split: sum.splits if_splits)
      from add_device_all_names [OF a] c' show ?thesis by simp
    qed
  qed
qed

lemma classes_loop_names:
  "classes_loop cnt tbl ls = Inr (tbl', rest) \<Longrightarrow> metric_names tbl' = metric_names tbl"
proof (induction tbl arbitrary: ls tbl')
  case Nil
  then show ?case by simp
next
  case (Cons c tbl)
  from Cons.prems obtain c1 ls1 tbl1 where
    a: "class_devices cnt c ls = Inr (c1, ls1)"
    and b: "classes_loop cnt tbl ls1 = Inr (tbl1, rest)" and t: "tbl' = c1 # tbl1"
    by (auto split: sum.splits prod.splits)
  from class_devices_names [OF a] Cons.IH [OF b] t show ?case
    by (simp add: metric_names_def)
qed

lemma config_metric_metricname:
  "config_metric atof name arg sep ctype m = Inr (m', flag) \<Longrightarrow> metricname m' = metricname m"
  by (auto simp: config_metric_def split: if_splits list.splits prod.splits)

lemma config_metrics_names:
  "config_metrics atof name arg sep ctype ms = Inr (ms', flag) \<Longrightarrow>
     map metricname ms' = map metricname ms"
proof (induction ms arbitrary: ms' flag)
  case Nil
  then show ?case by simp
next
  case (Cons m ms)
  from Cons.prems obtain m1 f ms1 g where
    a: "config_metric atof name arg sep ctype m = Inr (m1, f)"
    and b: "config_metrics atof name arg sep ctype ms = Inr (ms1, g)"
    and c: "ms' = m1 # ms1"
    by (auto split: sum.splits prod.splits)
  from config_metric_metricname [OF a] Cons.IH [OF b] c show ?case by simp
qed

lemma config_classes_names:
  "config_classes atof name arg sep tbl = Inr (tbl', flag) \<Longrightarrow>
     metric_names tbl' = metric_names tbl"
proof (induction tbl arbitrary: tbl' flag)
  case Nil
  then show ?case by simp
next
  case (Cons c tbl)
  from Cons.prems obtain ms f tbl1 g where
    a: "config_metrics atof name arg sep (classtype c) (metrictbl c) = Inr (ms, f)"
    and b: "config_classes atof name arg sep tbl = Inr (tbl1, g)"
    and c: "tbl' = c\<lparr>metrictbl := ms\<rparr> # tbl1"
    by (auto split: sum.splits prod.splits)
  from config_metrics_names [OF a] Cons.IH [OF b] c show ?case
    by (simp add: metric_names_def)
qed

lemma config_loop_names:
  "config_loop atof tbl ptbl ls = Inr (tbl', ptbl') \<Longrightarrow> metric_names tbl' = metric_names tbl"
proof (induction ls arbitrary: tbl ptbl)
  case Nil
  then show ?case by simp
next
  case (Cons l ls)
  from Cons.prems obtain argtbl where p: "parse_input_line l 2 = Inr argtbl"
    by (auto split: sum.splits)
  show ?case
  proof (cases "length argtbl = 2")
    case True
    with Cons.prems p obtain tbl1 f where
      a: "config_classes atof (argtbl ! 0) (argtbl ! 1)
            (the_string (param_value ptbl METDEVSEPARATORIDX)) tbl = Inr (tbl1, f)"
      and b: "config_loop atof tbl1 (config_params atof (argtbl ! 0) (argtbl ! 1) ptbl) ls
            = Inr (tbl', ptbl')"
      by (auto split: sum.splits prod.splits)
    from Cons.IH [OF b] config_classes_names [OF a] show ?thesis by simp
  next
    case False
    with Cons.prems p have "config_loop atof tbl ptbl ls = Inr (tbl', ptbl')" by simp
    from Cons.IH [OF this] show ?thesis .
  qed
qed

lemma duplicate_namesI:
  assumes "i < length N" "j < length (N ! i)" "k < length N" "l < length (N ! k)"
    and "i \<noteq> k \<or> j \<noteq> l" and "N ! i ! j = N ! k ! l"
  shows "duplicate_names N"
  unfolding duplicate_names_def list_ex_iff
  using assms by (intro bexI [of _ i] bexI [of _ j] bexI [of _ k] bexI [of _ l]) simp_all

lemma after_metadata_names:
  assumes "initialize_timestamp s2 = Inr s3" and "initialize_classes s3 = Inr s4"
    and "(case configfilename opts of None \<Rightarrow> Inr s4
          | Some configfile \<Rightarrow> read_configfile atof configfile s4) = Inr s5"
  shows "metric_names (classtbl s5) = metric_names (classtbl s2)"
proof -
  from assms(1) have 3: "classtbl s3 = classtbl s2"
    by (auto simp: initialize_timestamp_def split: sum.splits prod.splits if_splits)
  from assms(2) obtain tbl rest where
    "classes_loop (count s3) (classtbl s3) (unread s3) = Inr (tbl, rest)" and "classtbl s4 = tbl"
    by (auto simp: initialize_classes_def split: sum.splits prod.splits)
  with classes_loop_names have 4: "metric_names (classtbl s4) = metric_names (classtbl s3)"
    by simp
  have 5: "metric_names (classtbl s5) = metric_names (classtbl s4)"
  proof (cases "configfilename opts")
    case None
    with assms(3) show ?thesis by simp
  next
    case (Some configfile)
    with assms(3) obtain ls tbl ptbl where
      "config_loop atof (classtbl s4) (paramtbl s4) ls = Inr (tbl, ptbl)" and "classtbl s5 = tbl"
      by (auto simp: read_configfile_def split: option.splits sum.splits prod.splits)
    with config_loop_names show ?thesis by simp
  qed
  from 3 4 5 show ?thesis by simp
qed

text \<open>
  C2, as the code has it. Let two different positions of the class table that
  \<open>initialize_metadata\<close> builds from the first input file hold metrics of the same
  (stored) name. Then the run ends in an error inside the first-file block,
  whatever the options and the other input files are: \<open>read_inputfile\<close> is never
  called and no output file is opened. When the phases between the metadata and
  the check return normally (\<open>initialize_timestamp\<close>, \<open>initialize_classes\<close> and,
  with \<open>-c\<close>, \<open>read_configfile\<close>), the error is exit code 1 from
  \<open>check_metric_names\<close>; these phases keep the metric names.
\<close>

theorem duplicate_metric_names_abort:
  assumes "inp \<noteq> Unopenable"
    and "initialize_time_values (initialize_parameters (open_input inp initial_state)) = Inr s1"
    and "initialize_metadata s1 = Inr s2"
    and "class1idx < numclasses s2" and "metric1idx < nummetrics (classtbl s2 ! class1idx)"
    and "class2idx < numclasses s2" and "metric2idx < nummetrics (classtbl s2 ! class2idx)"
    and "class1idx \<noteq> class2idx \<or> metric1idx \<noteq> metric2idx"
    and "metricname (metrictbl (classtbl s2 ! class1idx) ! metric1idx) =
         metricname (metrictbl (classtbl s2 ! class2idx) ! metric2idx)"
  shows "(\<exists>e. pma_main atof opts (inp # inps) = Inl e) \<and>
     (\<forall>s3 s4 s5. initialize_timestamp s2 = Inr s3 \<longrightarrow> initialize_classes s3 = Inr s4 \<longrightarrow>
        (case configfilename opts of None \<Rightarrow> Inr s4
         | Some configfile \<Rightarrow> read_configfile atof configfile s4) = Inr s5 \<longrightarrow>
        check_metric_names s5 = Inl (Exit 1) \<and>
        pma_main atof opts (inp # inps) = Inl (Exit 1))"
proof -
  let ?s = "open_input inp initial_state"
  have dup: "duplicate_names (metric_names (classtbl s2))"
    using assms(4-9)
    by (intro duplicate_namesI [of class1idx _ metric1idx class2idx metric2idx])
       (simp_all add: metric_names_def numclasses_def nummetrics_def)
  have main: "pma_main atof opts (inp # inps) =
      (case first_file_init atof opts ?s of
         Inl e \<Rightarrow> Inl e
       | Inr s1 \<Rightarrow>
           (case read_inputfile atof opts s1 of
              Inl e \<Rightarrow> Inl e
            | Inr (s2, t) \<Rightarrow>
                (case main_loop atof opts False s2 t inps of
                   Inl e \<Rightarrow> Inl e
                 | Inr (s, lasttimestamp) \<Rightarrow> Inr s)))"
    using assms(1) by (simp add: pma_main_def split: sum.splits prod.splits)
  have exit: "first_file_init atof opts ?s = Inl (Exit 1)"
    if 3: "initialize_timestamp s2 = Inr s3" and 4: "initialize_classes s3 = Inr s4"
      and 5: "(case configfilename opts of None \<Rightarrow> Inr s4
          | Some configfile \<Rightarrow> read_configfile atof configfile s4) = Inr s5"
      for s3 s4 s5
  proof -
    from after_metadata_names [OF 3 4 5] dup
    have "check_metric_names s5 = Inl (Exit 1)" by (simp add: check_metric_names_eq)
    with assms(2,3) 3 4 5 show ?thesis
      by (simp add: first_file_init_def bind_result_def)
  qed
  have chk: "check_metric_names s5 = Inl (Exit 1)"
    if 3: "initialize_timestamp s2 = Inr s3" and 4: "initialize_classes s3 = Inr s4"
      and 5: "(case configfilename opts of None \<Rightarrow> Inr s4
          | Some configfile \<Rightarrow> read_configfile atof configfile s4) = Inr s5"
      for s3 s4 s5
    using after_metadata_names [OF 3 4 5] dup by (simp add: check_metric_names_eq)
  have "\<exists>e. first_file_init atof opts ?s = Inl e"
  proof (cases "initialize_timestamp s2")
    case (Inl e)
    with assms(2,3) show ?thesis by (simp add: first_file_init_def bind_result_def)
  next
    case 3: (Inr s3)
    show ?thesis
    proof (cases "initialize_classes s3")
      case (Inl e)
      with assms(2,3) 3 show ?thesis by (simp add: first_file_init_def bind_result_def)
    next
      case 4: (Inr s4)
      show ?thesis
      proof (cases "case configfilename opts of None \<Rightarrow> Inr s4
          | Some configfile \<Rightarrow> read_configfile atof configfile s4")
        case (Inl e)
        with assms(2,3) 3 4 show ?thesis by (simp add: first_file_init_def bind_result_def)
      next
        case (Inr s5)
        from exit [OF 3 4 Inr] show ?thesis by blast
      qed
    qed
  qed
  then have "\<exists>e. pma_main atof opts (inp # inps) = Inl e"
    unfolding main by auto
  moreover have "pma_main atof opts (inp # inps) = Inl (Exit 1)"
    if "initialize_timestamp s2 = Inr s3" "initialize_classes s3 = Inr s4"
      "(case configfilename opts of None \<Rightarrow> Inr s4
          | Some configfile \<Rightarrow> read_configfile atof configfile s4) = Inr s5"
      for s3 s4 s5
    unfolding main using exit [OF that] by simp
  ultimately show ?thesis using chk by blast
qed

text \<open>
  C2 as claimed fails on "before any data stanza is read". On \<open>dup_file\<close> the run
  ends with exit code 1, but \<open>first_file_scan\<close>, which runs before the check, has
  returned normally with the devices \<open>sda\<close> and \<open>sdb\<close> in the table: these names
  stand only in the lines of the data stanza \<open>IO:\<close>, which \<open>initialize_classes\<close>
  has read.
\<close>

theorem duplicate_checked_after_discovery_counterexample:
  "map_sum id classtbl (first_file_scan (open_input (File dup_file) initial_state)) =
     Inr dup_classtbl \<and>
   pma_main atof_example no_options [File dup_file] = Inl (Exit 1)"
  by code_simp

lemma dup_metadata:
  "map_sum id (\<lambda>s. metric_names (classtbl s))
     (bind_result (initialize_time_values (initialize_parameters
         (open_input (File dup_file) initial_state))) initialize_metadata) =
   Inr [[''cpu''], [''cpu'']]"
  by code_simp

theorem duplicate_metric_names_abort_witness:
  "pma_main atof_example no_options [File dup_file] = Inl (Exit 1)"
proof -
  let ?s = "open_input (File dup_file) initial_state"
  obtain s1 where 1: "initialize_time_values (initialize_parameters ?s) = Inr s1"
    using dup_metadata
    by (cases "initialize_time_values (initialize_parameters ?s)")
       (auto simp: bind_result_def)
  obtain s2 where 2: "initialize_metadata s1 = Inr s2"
    and n: "metric_names (classtbl s2) = [[''cpu''], [''cpu'']]"
    using dup_metadata 1
    by (cases "initialize_metadata s1") (auto simp: bind_result_def)
  from n have len: "length (classtbl s2) = 2"
    by (auto simp: metric_names_def dest: arg_cong [where f = length])
  from n have n0: "map metricname (metrictbl (classtbl s2 ! 0)) = [''cpu'']"
    and n1: "map metricname (metrictbl (classtbl s2 ! Suc 0)) = [''cpu'']"
    using len by (auto simp: metric_names_def dest: arg_cong [where f = "\<lambda>x. x ! 0"]
        arg_cong [where f = "\<lambda>x. x ! Suc 0"])
  have l0: "length (metrictbl (classtbl s2 ! 0)) = 1"
    using n0 by (auto dest: arg_cong [where f = length])
  have l1: "length (metrictbl (classtbl s2 ! Suc 0)) = 1"
    using n1 by (auto dest: arg_cong [where f = length])
  have e: "metricname (metrictbl (classtbl s2 ! 0) ! 0) =
         metricname (metrictbl (classtbl s2 ! Suc 0) ! 0)"
    using n0 n1 l0 l1
    by (metis length_greater_0_conv list.size(3) nth_Cons_0 nth_map zero_less_one
        zero_neq_one)
  have "(\<exists>e. pma_main atof_example no_options (File dup_file # []) = Inl e) \<and>
     (\<forall>s3 s4 s5. initialize_timestamp s2 = Inr s3 \<longrightarrow> initialize_classes s3 = Inr s4 \<longrightarrow>
        (case configfilename no_options of None \<Rightarrow> Inr s4
         | Some configfile \<Rightarrow> read_configfile atof_example configfile s4) = Inr s5 \<longrightarrow>
        check_metric_names s5 = Inl (Exit 1) \<and>
        pma_main atof_example no_options (File dup_file # []) = Inl (Exit 1))"
    by (rule duplicate_metric_names_abort [OF _ 1 2, of 0 0 "Suc 0" 0])
       (simp_all add: numclasses_def nummetrics_def len l0 l1 e)
  moreover have "\<exists>s3 s4. initialize_timestamp s2 = Inr s3 \<and> initialize_classes s3 = Inr s4"
  proof -
    have "\<not> isl (first_file_scan ?s)" by code_simp
    with 1 2 show ?thesis
      by (cases "initialize_timestamp s2"; cases "initialize_classes (projr (initialize_timestamp s2))")
         (auto simp: first_file_scan_def bind_result_def)
  qed
  ultimately show ?thesis
    by (auto simp: no_options_def)
qed

subsection \<open>Scale factors in the emitters\<close>

lemma collect_Inr_concat:
  assumes "collect f xs = Inr out"
    and "\<And>x y. x \<in> set xs \<Longrightarrow> f x = Inr y \<Longrightarrow> y = g x"
  shows "out = concat (map g xs)"
  using assms
proof (induction xs arbitrary: out)
  case Nil
  then show ?case by simp
next
  case (Cons x xs)
  from Cons.prems(1) obtain y ys where a: "f x = Inr y" and b: "collect f xs = Inr ys"
    and o: "out = y @ ys"
    by (auto split: sum.splits)
  from Cons.prems(2) [of x y] a have "y = g x" by simp
  moreover from Cons.IH [OF b] Cons.prems(2) have "ys = concat (map g xs)" by simp
  ultimately show ?case using o by simp
qed

lemma header_metric_Inr:
  assumes "header_metric ptbl c m = Inr y"
  shows "y = concat (map (header_entry ptbl)
              (filter active (map (\<lambda>d. (c, m, d)) (series_of c m))))"
proof (cases "classtype c = VECTORCLASS")
  case True
  with assms obtain d ds where "devicetbl m = d # ds"
    by (auto simp: header_metric_def split: list.splits)
  with assms True show ?thesis
    by (auto simp: header_metric_def series_of_def active_def header_entry_def)
next
  case False
  have "concat (map (\<lambda>d. if scale d \<noteq> 0 then
            [Chr (the_character (param_value ptbl SINGFILEDELIMITERIDX)), Text (metricname m),
             Text (the_string (param_value ptbl METDEVSEPARATORIDX)), Text (devicename d)]
          else []) ds) =
        concat (map (header_entry ptbl) (filter active (map (\<lambda>d. (c, m, d)) ds)))" for ds
    using False by (induction ds) (simp_all add: active_def header_entry_def)
  with assms False show ?thesis
    by (simp add: header_metric_def series_of_def)
qed

lemma concat_map_concat:
  "concat (map (\<lambda>x. concat (map g (F x))) xs) = concat (map g (concat (map F xs)))"
  by (induction xs) simp_all

lemma filter_concat_map:
  "concat (map (\<lambda>x. filter P (F x)) xs) = filter P (concat (map F xs))"
  by (induction xs) simp_all

lemma concat_series:
  "concat (map (\<lambda>c. concat (map (\<lambda>m.
       concat (map g (filter active (map (\<lambda>d. (c, m, d)) (series_of c m))))) (metrictbl c))) tbl)
   = concat (map g (filter active (all_series tbl)))"
  unfolding all_series_def
  by (simp only: concat_map_concat filter_concat_map)

lemma output_singlefile_headers_Inr:
  assumes "output_singlefile_headers s = Inr hdr"
  shows "hdr = Text ''Time'' #
           concat (map (header_entry (paramtbl s)) (filter active (all_series (classtbl s)))) @
           [Newline]"
proof -
  from assms obtain items where
    c: "collect (\<lambda>c. collect (header_metric (paramtbl s) c) (metrictbl c)) (classtbl s) = Inr items"
    and h: "hdr = Text ''Time'' # items @ [Newline]"
    by (auto simp: output_singlefile_headers_def split: sum.splits)
  have "items = concat (map (\<lambda>c. concat (map (\<lambda>m.
      concat (map (header_entry (paramtbl s))
        (filter active (map (\<lambda>d. (c, m, d)) (series_of c m))))) (metrictbl c))) (classtbl s))"
    by (rule collect_Inr_concat [OF c], rule collect_Inr_concat, assumption,
        rule header_metric_Inr)
  with h show ?thesis by (simp only: concat_series)
qed

lemma body_device_Inr:
  assumes "body_device s c rowidx d = Inr y"
  shows "y = concat (map (body_cell s rowidx) (filter active [(c, m, d)]))"
  using assms by (auto simp: body_device_def active_def body_cell_def split: if_splits)

lemma body_metric_Inr:
  assumes "body_metric s c rowidx m = Inr y"
  shows "y = concat (map (body_cell s rowidx)
              (filter active (map (\<lambda>d. (c, m, d)) (series_of c m))))"
proof (cases "classtype c = VECTORCLASS")
  case True
  with assms obtain d ds where dt: "devicetbl m = d # ds"
    by (auto simp: body_metric_def split: list.splits)
  with assms True have "body_device s c rowidx d = Inr y" by (simp add: body_metric_def)
  from body_device_Inr [OF this, of m] dt True show ?thesis by (simp add: series_of_def)
next
  case False
  with assms have c: "collect (body_device s c rowidx) (devicetbl m) = Inr y"
    by (simp add: body_metric_def)
  have "y = concat (map (\<lambda>d. concat (map (body_cell s rowidx) (filter active [(c, m, d)])))
              (devicetbl m))"
    by (rule collect_Inr_concat [OF c], rule body_device_Inr)
  moreover have "concat (map (\<lambda>d. concat (map g (filter active [(c, m, d)]))) ds) =
      concat (map g (filter active (map (\<lambda>d. (c, m, d)) ds)))" for g :: "_ \<Rightarrow> out_item list" and ds
    by (induction ds) simp_all
  ultimately show ?thesis using False by (simp add: series_of_def)
qed

lemma body_row_Inr:
  assumes "body_row s timestamp rowidx = Inr y"
  shows "y = Stamp (the_string (param_value (paramtbl s) SINGFILEDATEFMTIDX))
                (timestamp + (int rowidx + 1) * interval s) #
             concat (map (body_cell s rowidx) (filter active (all_series (classtbl s)))) @
             [Newline]"
proof -
  from assms obtain items where
    c: "collect (\<lambda>c. collect (body_metric s c rowidx) (metrictbl c)) (classtbl s) = Inr items"
    and h: "y = Stamp (the_string (param_value (paramtbl s) SINGFILEDATEFMTIDX))
                (timestamp + (int rowidx + 1) * interval s) # items @ [Newline]"
    by (auto simp: body_row_def split: sum.splits)
  have "items = concat (map (\<lambda>c. concat (map (\<lambda>m.
      concat (map (body_cell s rowidx)
        (filter active (map (\<lambda>d. (c, m, d)) (series_of c m))))) (metrictbl c))) (classtbl s))"
    by (rule collect_Inr_concat [OF c], rule collect_Inr_concat, assumption,
        rule body_metric_Inr)
  with h show ?thesis by (simp only: concat_series)
qed

lemma output_singlefile_body_Inr:
  assumes "output_singlefile_body s timestamp = Inr body"
  shows "body = concat (map (\<lambda>rowidx.
            Stamp (the_string (param_value (paramtbl s) SINGFILEDATEFMTIDX))
                (timestamp + (int rowidx + 1) * interval s) #
             concat (map (body_cell s rowidx) (filter active (all_series (classtbl s)))) @
             [Newline]) [0..<nat (count s)])"
  by (rule collect_Inr_concat [OF assms [unfolded output_singlefile_body_def]],
      rule body_row_Inr)

lemma mapE_Inr_map:
  assumes "mapE f xs = Inr ys"
    and "\<And>x y. x \<in> set xs \<Longrightarrow> f x = Inr y \<Longrightarrow> y = g x"
  shows "ys = map g xs"
  using assms
proof (induction xs arbitrary: ys)
  case Nil
  then show ?case by simp
next
  case (Cons x xs)
  from Cons.prems(1) obtain y zs where a: "f x = Inr y" and b: "mapE f xs = Inr zs"
    and o: "ys = y # zs"
    by (auto split: sum.splits)
  from Cons.prems(2) [of x y] a have "y = g x" by simp
  moreover from Cons.IH [OF b] Cons.prems(2) have "zs = map g xs" by simp
  ultimately show ?case using o by simp
qed

lemma prepare_metric_Inr:
  assumes "prepare_metric ptbl c m = Inr m'"
  shows "m' = m\<lparr>devicetbl :=
         (if classtype c = VECTORCLASS then
            (case devicetbl m of [] \<Rightarrow> [] | d # ds \<Rightarrow> narrow_open ptbl c m d # ds)
          else map (narrow_open ptbl c m) (devicetbl m))\<rparr>"
  using assms
  by (auto simp: prepare_metric_def narrow_open_def open_series_def series_name_def
      split: if_splits list.splits)

lemma prepare_class_Inr:
  assumes "prepare_class ptbl c = Inr c'"
  shows "c' = c\<lparr>metrictbl :=
       map (\<lambda>m. m\<lparr>devicetbl :=
         (if classtype c = VECTORCLASS then
            (case devicetbl m of [] \<Rightarrow> [] | d # ds \<Rightarrow> narrow_open ptbl c m d # ds)
          else map (narrow_open ptbl c m) (devicetbl m))\<rparr>) (metrictbl c)\<rparr>"
proof -
  from assms obtain ms where m: "mapE (prepare_metric ptbl c) (metrictbl c) = Inr ms"
    and c': "c' = c\<lparr>metrictbl := ms\<rparr>"
    by (auto simp: prepare_class_def split: sum.splits)
  from mapE_Inr_map [OF m prepare_metric_Inr] c' show ?thesis by simp
qed

lemma prepare_multi_output_files_Inr:
  assumes "prepare_multi_output_files s = Inr s'"
  shows "classtbl s' = map_series (narrow_open (paramtbl s)) (classtbl s)"
proof -
  from assms obtain tbl where m: "mapE (prepare_class (paramtbl s)) (classtbl s) = Inr tbl"
    and s': "s' = s\<lparr>classtbl := tbl\<rparr>"
    by (auto simp: prepare_multi_output_files_def split: sum.splits)
  from mapE_Inr_map [OF m prepare_class_Inr] s' show ?thesis
    unfolding map_series_def by simp
qed

lemma multi_device_Inr:
  assumes "multi_device s c timestamp rowidx d = Inr d'"
  shows "d' = narrow_rows s timestamp [rowidx] c m d"
  using assms
  by (auto simp: multi_device_def narrow_rows_def narrow_line_def option.map_ident
      split: if_splits option.splits)

lemma multi_metric_Inr:
  assumes "multi_metric s c timestamp rowidx m = Inr m'"
  shows "m' = m\<lparr>devicetbl :=
         (if classtype c = VECTORCLASS then
            (case devicetbl m of [] \<Rightarrow> []
             | d # ds \<Rightarrow> narrow_rows s timestamp [rowidx] c m d # ds)
          else map (narrow_rows s timestamp [rowidx] c m) (devicetbl m))\<rparr>"
proof (cases "classtype c = VECTORCLASS")
  case True
  with assms obtain d ds d' where dt: "devicetbl m = d # ds"
    and d': "multi_device s c timestamp rowidx d = Inr d'"
    and m': "m' = m\<lparr>devicetbl := d' # ds\<rparr>"
    by (auto simp: multi_metric_def split: list.splits sum.splits)
  from multi_device_Inr [OF d', of m] dt m' True show ?thesis by simp
next
  case False
  with assms obtain ds where
    ds: "mapE (multi_device s c timestamp rowidx) (devicetbl m) = Inr ds"
    and m': "m' = m\<lparr>devicetbl := ds\<rparr>"
    by (auto simp: multi_metric_def split: sum.splits)
  from mapE_Inr_map [OF ds multi_device_Inr] m' False show ?thesis by simp
qed

lemma multi_class_Inr:
  assumes "multi_class s timestamp rowidx c = Inr c'"
  shows "c' = c\<lparr>metrictbl :=
       map (\<lambda>m. m\<lparr>devicetbl :=
         (if classtype c = VECTORCLASS then
            (case devicetbl m of [] \<Rightarrow> []
             | d # ds \<Rightarrow> narrow_rows s timestamp [rowidx] c m d # ds)
          else map (narrow_rows s timestamp [rowidx] c m) (devicetbl m))\<rparr>) (metrictbl c)\<rparr>"
proof -
  from assms obtain ms where
    m: "mapE (multi_metric s c timestamp rowidx) (metrictbl c) = Inr ms"
    and c': "c' = c\<lparr>metrictbl := ms\<rparr>"
    by (auto simp: multi_class_def split: sum.splits)
  from mapE_Inr_map [OF m multi_metric_Inr] c' show ?thesis by simp
qed

lemma multi_row_Inr:
  assumes "mapE (multi_class s timestamp rowidx) tbl = Inr tbl'"
  shows "tbl' = map_series (narrow_rows s timestamp [rowidx]) tbl"
  unfolding map_series_def by (rule mapE_Inr_map [OF assms multi_class_Inr])

lemma narrow_line_fileptr:
  "narrow_line s timestamp (d\<lparr>fileptr := x\<rparr>) = narrow_line s timestamp d"
  by (rule ext) (simp add: narrow_line_def)

lemma narrow_rows_append:
  "narrow_rows s timestamp rows c' m' (narrow_rows s timestamp [rowidx] c m d) =
   narrow_rows s timestamp (rowidx # rows) c m d"
  if "startrow c' = startrow c"
  using that
  by (cases "fileptr d") (simp_all add: narrow_rows_def narrow_line_fileptr)

lemma map_series_narrow_rows:
  "map_series (narrow_rows s timestamp rows) (map_series (narrow_rows s timestamp [rowidx]) tbl) =
   map_series (narrow_rows s timestamp (rowidx # rows)) tbl"
  unfolding map_series_def
  by (auto simp: narrow_rows_append comp_def split: list.splits)

lemma multi_rows_Inr:
  assumes "multi_rows s timestamp rows tbl = Inr tbl'"
  shows "tbl' = map_series (narrow_rows s timestamp rows) tbl"
  using assms
proof (induction rows arbitrary: tbl)
  case Nil
  have "map_series (narrow_rows s timestamp []) tbl = tbl"
    unfolding map_series_def narrow_rows_def
    by (auto simp: map_idI option.map_ident split: list.splits intro!: map_idI [symmetric])
  with Nil show ?case by simp
next
  case (Cons rowidx rows)
  from Cons.prems obtain tbl1 where
    a: "mapE (multi_class s timestamp rowidx) tbl = Inr tbl1"
    and b: "multi_rows s timestamp rows tbl1 = Inr tbl'"
    by (auto split: sum.splits)
  from Cons.IH [OF b] multi_row_Inr [OF a] show ?case
    by (simp add: map_series_narrow_rows)
qed

lemma output_multifile_bodies_data_Inr:
  assumes "output_multifile_bodies_data s timestamp = Inr s'"
  shows "classtbl s' = map_series (narrow_rows s timestamp [0..<nat (count s)]) (classtbl s)"
proof -
  from assms obtain tbl where
    m: "multi_rows s timestamp [0..<nat (count s)] (classtbl s) = Inr tbl"
    and s': "s' = s\<lparr>classtbl := tbl\<rparr>"
    by (auto simp: output_multifile_bodies_data_def split: sum.splits)
  from multi_rows_Inr [OF m] s' show ?thesis by simp
qed

text \<open>
  C3. A new device has the scale 0. Whenever an emitter returns normally:
  the header line of the wide table is \<open>Time\<close> followed by one entry for every
  series with a non-zero scale, and by none for a series with the scale 0; every
  row of the wide table is its time stamp followed by one cell for every series
  with a non-zero scale, and the value in a cell is
  \<open>fullscale / scale * valuetbl[rowidx]\<close>; \<open>prepare_multi_output_files\<close> opens a
  narrow file for every series with a non-zero scale and leaves a series with the
  scale 0 without a file; \<open>output_multifile_bodies_data\<close> appends to the file of a
  series with a non-zero scale one line per row from the start row on, with the
  value \<open>fullscale / scale * valuetbl[rowidx]\<close>, and leaves a series with the
  scale 0 as it is. \<open>fullscale\<close> is the one global of the state. Values are
  of the type \<open>double\<close>, and \<open>Fixed1\<close> stands for the
  conversion \<^verbatim>\<open>%.1f\<close>. The summary table of the option \<^verbatim>\<open>-d\<close>, which lists every
  series, is not part of the two emitters.
\<close>

theorem scale_suppresses_and_normalizes:
  "scale (new_device cnt name) = 0 \<and>
   (output_singlefile_headers s = Inr hdr \<longrightarrow>
      hdr = Text ''Time'' #
        concat (map (header_entry (paramtbl s)) (filter active (all_series (classtbl s)))) @
        [Newline]) \<and>
   (output_singlefile_body s timestamp = Inr body \<longrightarrow>
      body = concat (map (\<lambda>rowidx.
          Stamp (the_string (param_value (paramtbl s) SINGFILEDATEFMTIDX))
            (timestamp + (int rowidx + 1) * interval s) #
          concat (map (body_cell s rowidx) (filter active (all_series (classtbl s)))) @
          [Newline]) [0..<nat (count s)])) \<and>
   (prepare_multi_output_files s = Inr s1 \<longrightarrow>
      classtbl s1 = map_series (narrow_open (paramtbl s)) (classtbl s)) \<and>
   (output_multifile_bodies_data s timestamp = Inr s2 \<longrightarrow>
      classtbl s2 = map_series (narrow_rows s timestamp [0..<nat (count s)]) (classtbl s))"
proof (intro conjI impI)
  show "scale (new_device cnt name) = 0" by (simp add: new_device_def)
qed (erule output_singlefile_headers_Inr output_singlefile_body_Inr
      prepare_multi_output_files_Inr output_multifile_bodies_data_Inr)+

theorem scale_suppresses_and_normalizes_witness:
  "\<exists>s1 s2.
     map (\<lambda>x. (metricname (fst (snd x)), devicename (snd (snd x)), scale (snd (snd x))))
       (all_series (classtbl scaled_state)) =
       [(''cpu'', ''None'', Finite 50), (''tps'', ''sda'', 0), (''tps'', ''sdb'', Finite 10)] \<and>
     output_singlefile_headers scaled_state =
       Inr [Text ''Time'', Chr CHR '','', Text ''cpu'', Chr CHR '','', Text ''tps'', Text ''_'',
            Text ''sdb'', Newline] \<and>
     output_singlefile_body scaled_state 1000 =
       Inr [Stamp ''%x %X'' 1010, Chr CHR '','', Fixed1 (Finite 10), Chr CHR '','', Fixed1 (Finite 20), Newline,
            Stamp ''%x %X'' 1020, Chr CHR '','', Fixed1 (Finite 14), Chr CHR '','', Fixed1 (Finite 40), Newline] \<and>
     prepare_multi_output_files scaled_state = Inr s1 \<and>
     output_multifile_bodies_data scaled_state 1000 = Inr s2 \<and>
     [Text ''Time'', Chr CHR '','', Text ''cpu'', Chr CHR '','', Text ''tps'', Text ''_'',
      Text ''sdb'', Newline] =
       Text ''Time'' #
         concat (map (header_entry (paramtbl scaled_state))
           (filter active (all_series (classtbl scaled_state)))) @ [Newline] \<and>
     [Stamp ''%x %X'' 1010, Chr CHR '','', Fixed1 (Finite 10), Chr CHR '','', Fixed1 (Finite 20), Newline,
      Stamp ''%x %X'' 1020, Chr CHR '','', Fixed1 (Finite 14), Chr CHR '','', Fixed1 (Finite 40), Newline] =
       concat (map (\<lambda>rowidx.
          Stamp (the_string (param_value (paramtbl scaled_state) SINGFILEDATEFMTIDX))
            (1000 + (int rowidx + 1) * interval scaled_state) #
          concat (map (body_cell scaled_state rowidx)
            (filter active (all_series (classtbl scaled_state)))) @
          [Newline]) [0..<nat (count scaled_state)]) \<and>
     classtbl s1 = map_series (narrow_open (paramtbl scaled_state)) (classtbl scaled_state) \<and>
     classtbl s2 =
       map_series (narrow_rows scaled_state 1000 [0..<nat (count scaled_state)])
         (classtbl scaled_state)"
proof -
  have series: "map (\<lambda>x. (metricname (fst (snd x)), devicename (snd (snd x)), scale (snd (snd x))))
       (all_series (classtbl scaled_state)) =
       [(''cpu'', ''None'', Finite 50), (''tps'', ''sda'', 0), (''tps'', ''sdb'', Finite 10)]"
    by code_simp
  have hdr: "output_singlefile_headers scaled_state =
       Inr [Text ''Time'', Chr CHR '','', Text ''cpu'', Chr CHR '','', Text ''tps'', Text ''_'',
            Text ''sdb'', Newline]"
    by code_simp
  have body: "output_singlefile_body scaled_state 1000 =
       Inr [Stamp ''%x %X'' 1010, Chr CHR '','', Fixed1 (Finite 10), Chr CHR '','', Fixed1 (Finite 20), Newline,
            Stamp ''%x %X'' 1020, Chr CHR '','', Fixed1 (Finite 14), Chr CHR '','', Fixed1 (Finite 40), Newline]"
    by code_simp
  have "\<not> isl (prepare_multi_output_files scaled_state)" by code_simp
  then obtain s1 where s1: "prepare_multi_output_files scaled_state = Inr s1"
    by (cases "prepare_multi_output_files scaled_state") auto
  have "\<not> isl (output_multifile_bodies_data scaled_state 1000)" by code_simp
  then obtain s2 where s2: "output_multifile_bodies_data scaled_state 1000 = Inr s2"
    by (cases "output_multifile_bodies_data scaled_state 1000") auto
  note spec = scale_suppresses_and_normalizes [where s = scaled_state and timestamp = 1000
      and ?s1.0 = s1 and ?s2.0 = s2]
  from spec hdr have h: "[Text ''Time'', Chr CHR '','', Text ''cpu'', Chr CHR '','', Text ''tps'', Text ''_'',
      Text ''sdb'', Newline] =
       Text ''Time'' #
         concat (map (header_entry (paramtbl scaled_state))
           (filter active (all_series (classtbl scaled_state)))) @ [Newline]"
    by blast
  from spec body have b: "[Stamp ''%x %X'' 1010, Chr CHR '','', Fixed1 (Finite 10), Chr CHR '','', Fixed1 (Finite 20), Newline,
      Stamp ''%x %X'' 1020, Chr CHR '','', Fixed1 (Finite 14), Chr CHR '','', Fixed1 (Finite 40), Newline] =
       concat (map (\<lambda>rowidx.
          Stamp (the_string (param_value (paramtbl scaled_state) SINGFILEDATEFMTIDX))
            (1000 + (int rowidx + 1) * interval scaled_state) #
          concat (map (body_cell scaled_state rowidx)
            (filter active (all_series (classtbl scaled_state)))) @
          [Newline]) [0..<nat (count scaled_state)])"
    by blast
  from spec s1 have o: "classtbl s1 =
      map_series (narrow_open (paramtbl scaled_state)) (classtbl scaled_state)"
    by blast
  from spec s2 have w: "classtbl s2 =
       map_series (narrow_rows scaled_state 1000 [0..<nat (count scaled_state)])
         (classtbl scaled_state)"
    by blast
  show ?thesis
    by (rule exI [of _ s1], rule exI [of _ s2], intro conjI)
      (rule series hdr body s1 s2 h b o w)+
qed

end
